theory Spec2Isabelle
  imports Complex_Main "HOL-Library.AList"
begin

section \<open>Python values\<close>

text \<open>
  The two programs are Python scripts: \<^verbatim>\<open>convert_jsonl_to_csv.py\<close> (reader,
  normalizer, chunked writer) and \<^verbatim>\<open>data_ingestion.py\<close> (load orchestrator).
  Exceptions are values of \<open>exn\<close>; a computation that may raise returns \<open>exn + 'a\<close>
  with \<open>Inl\<close> for the exception.
\<close>

datatype exn =
    JSONDecodeError
  | ValueError
  | TypeError
  | OverflowError
  | KeyError
  | AttributeError
  | ZeroDivisionError
  | OtherException

text \<open>
  A Python \<open>float\<close>: a finite value (every finite double is a rational number), negative
  zero, the two infinities and not-a-number. \<open>Fin 0\<close> is \<open>0.0\<close>.
\<close>

datatype pyfloat = Fin rat | NegZero | PosInf | NegInf | NaN

text \<open>
  What \<^verbatim>\<open>json.loads\<close> returns: \<open>None\<close>, a bool, an unbounded int, a float, a
  str, a list, or a dict with string keys. A dict is an association list in insertion
  order; \<open>map_of\<close> looks a key up.
\<close>

datatype json =
    JNull
  | JBool bool
  | JInt int
  | JFloat pyfloat
  | JStr string
  | JList "json list"
  | JDict "(string \<times> json) list"

type_synonym pydict = "(string \<times> json) list"

text \<open>
  Library functions whose results the scripts only pass on are parameters of the model,
  so every theorem holds whatever they compute: the parsers behind \<^verbatim>\<open>float(s)\<close>
  and \<^verbatim>\<open>int(s)\<close> on a str (\<open>None\<close> is the \<^verbatim>\<open>ValueError\<close> they raise), the
  string forms of numbers and containers, \<^verbatim>\<open>json.dumps\<close> and \<^verbatim>\<open>json.loads\<close>.
\<close>

record pylib =
  float_of_str :: "string \<Rightarrow> pyfloat option"
  int_of_str :: "string \<Rightarrow> int option"
  str_of_int :: "int \<Rightarrow> string"
  str_of_float :: "pyfloat \<Rightarrow> string"
  str_of_list :: "json list \<Rightarrow> string"
  str_of_dict :: "pydict \<Rightarrow> string"
  json_dumps :: "pydict \<Rightarrow> string"
  json_loads :: "string \<Rightarrow> exn + json"

section \<open>Strings\<close>

text \<open>
  Strings are those over the code points below 256, one \<open>char\<close> each. \<open>isspace\<close> is
  \<^verbatim>\<open>str.isspace\<close> on one such character: tab, line feed, vertical tab, form feed,
  carriage return, the four separators 28 to 31, the space, NEL (133) and the no-break
  space (160). \<open>lower_char\<close> is \<^verbatim>\<open>str.lower\<close> on one: the capitals \<open>A\<close> to \<open>Z\<close> and
  the accented capitals 192 to 222 (215, the multiplication sign, is none) move up by 32.
\<close>

definition isspace :: "char \<Rightarrow> bool" where
  "isspace c =
     (let n = (of_char c :: nat)
      in (9 \<le> n \<and> n \<le> 13) \<or> (28 \<le> n \<and> n \<le> 32) \<or> n = 133 \<or> n = 160)"

definition lower_char :: "char \<Rightarrow> char" where
  "lower_char c =
     (let n = (of_char c :: nat)
      in if (65 \<le> n \<and> n \<le> 90) \<or> (192 \<le> n \<and> n \<le> 222 \<and> n \<noteq> 215)
         then char_of (n + 32) else c)"

definition lower :: "string \<Rightarrow> string" where
  "lower s = map lower_char s"

text \<open>\<^verbatim>\<open>s.replace(old, new)\<close> for one-character \<open>old\<close> and \<open>new\<close>.\<close>

definition replace_char :: "char \<Rightarrow> char \<Rightarrow> string \<Rightarrow> string" where
  "replace_char old new s = map (\<lambda>c. if c = old then new else c) s"

text \<open>\<^verbatim>\<open>s.strip()\<close>: whitespace removed at both ends.\<close>

definition strip :: "string \<Rightarrow> string" where
  "strip s = rev (dropWhile isspace (rev (dropWhile isspace s)))"

text \<open>
  \<^verbatim>\<open>s.split()\<close> with no separator: the maximal runs of non-whitespace characters, in
  order. The first argument is the word being read.
\<close>

fun split_from :: "string \<Rightarrow> string \<Rightarrow> string list" where
  "split_from w [] = (if w = [] then [] else [w])"
| "split_from w (c # cs) =
     (if isspace c then (if w = [] then split_from [] cs else w # split_from [] cs)
      else split_from (w @ [c]) cs)"

definition split_ws :: "string \<Rightarrow> string list" where
  "split_ws s = split_from [] s"

text \<open>\<^verbatim>\<open>sep.join(words)\<close>.\<close>

fun str_join :: "string \<Rightarrow> string list \<Rightarrow> string" where
  "str_join sep [] = []"
| "str_join sep [w] = w"
| "str_join sep (w # v # ws) = w @ sep @ str_join sep (v # ws)"

section \<open>Builtins on decoded values\<close>

text \<open>Truth value of an object, as \<^verbatim>\<open>if x\<close> and \<^verbatim>\<open>x if c else y\<close> test it.\<close>

fun truthy :: "json \<Rightarrow> bool" where
  "truthy JNull = False"
| "truthy (JBool b) = b"
| "truthy (JInt n) = (n \<noteq> 0)"
| "truthy (JFloat f) = (f \<noteq> Fin 0 \<and> f \<noteq> NegZero)"
| "truthy (JStr s) = (s \<noteq> [])"
| "truthy (JList xs) = (xs \<noteq> [])"
| "truthy (JDict kvs) = (kvs \<noteq> [])"

text \<open>\<^verbatim>\<open>str(x)\<close>.\<close>

fun py_str :: "pylib \<Rightarrow> json \<Rightarrow> string" where
  "py_str L JNull = ''None''"
| "py_str L (JBool b) = (if b then ''True'' else ''False'')"
| "py_str L (JInt n) = str_of_int L n"
| "py_str L (JFloat f) = str_of_float L f"
| "py_str L (JStr s) = s"
| "py_str L (JList xs) = str_of_list L xs"
| "py_str L (JDict kvs) = str_of_dict L kvs"

text \<open>
  \<^verbatim>\<open>float(n)\<close> on an int rounds to the nearest double, ties to even, and raises
  \<^verbatim>\<open>OverflowError\<close> when the rounded value does not fit (from \<open>2^1024 - 2^970\<close> on).
  \<open>bit_length\<close> is \<^verbatim>\<open>int.bit_length\<close> of a natural number.
\<close>

function bit_length :: "nat \<Rightarrow> nat" where
  "bit_length a = (if a = 0 then 0 else Suc (bit_length (a div 2)))"
  by pat_completeness auto
termination
  by (relation "measure (\<lambda>a. a)") auto

declare bit_length.simps [simp del]

definition round_to_double :: "int \<Rightarrow> int" where
  "round_to_double n =
     (let a = nat \<bar>n\<bar>; b = bit_length a
      in if b \<le> 53 then n
         else let sh = b - 53; q = a div 2 ^ sh; r = a mod 2 ^ sh; h = 2 ^ (sh - 1);
                  q' = (if h < r \<or> (r = h \<and> odd q) then q + 1 else q)
              in sgn n * int (q' * 2 ^ sh))"

definition float_overflow_bound :: int where
  "float_overflow_bound = 2 ^ 1024 - 2 ^ 970"

definition float_of_int :: "int \<Rightarrow> exn + pyfloat" where
  "float_of_int n =
     (if float_overflow_bound \<le> \<bar>n\<bar> then Inl OverflowError
      else Inr (Fin (of_int (round_to_double n))))"

text \<open>\<^verbatim>\<open>float(x)\<close>.\<close>

fun py_float :: "pylib \<Rightarrow> json \<Rightarrow> exn + pyfloat" where
  "py_float L JNull = Inl TypeError"
| "py_float L (JBool b) = Inr (Fin (if b then 1 else 0))"
| "py_float L (JInt n) = float_of_int n"
| "py_float L (JFloat f) = Inr f"
| "py_float L (JStr s) = (case float_of_str L s of None \<Rightarrow> Inl ValueError | Some f \<Rightarrow> Inr f)"
| "py_float L (JList xs) = Inl TypeError"
| "py_float L (JDict kvs) = Inl TypeError"

text \<open>
  \<^verbatim>\<open>int(f)\<close> on a float truncates towards zero; it raises \<^verbatim>\<open>ValueError\<close> on
  not-a-number and \<^verbatim>\<open>OverflowError\<close> on an infinity.
\<close>

fun int_of_float :: "pyfloat \<Rightarrow> exn + int" where
  "int_of_float (Fin q) = Inr (if 0 \<le> q then \<lfloor>q\<rfloor> else \<lceil>q\<rceil>)"
| "int_of_float NegZero = Inr 0"
| "int_of_float PosInf = Inl OverflowError"
| "int_of_float NegInf = Inl OverflowError"
| "int_of_float NaN = Inl ValueError"

text \<open>\<^verbatim>\<open>int(x)\<close>.\<close>

fun py_int :: "pylib \<Rightarrow> json \<Rightarrow> exn + int" where
  "py_int L JNull = Inl TypeError"
| "py_int L (JBool b) = Inr (if b then 1 else 0)"
| "py_int L (JInt n) = Inr n"
| "py_int L (JFloat f) = int_of_float f"
| "py_int L (JStr s) = (case int_of_str L s of None \<Rightarrow> Inl ValueError | Some n \<Rightarrow> Inr n)"
| "py_int L (JList xs) = Inl TypeError"
| "py_int L (JDict kvs) = Inl TypeError"

text \<open>\<^verbatim>\<open>d.get(key, default)\<close> and \<^verbatim>\<open>d[key]\<close>, which raises \<^verbatim>\<open>KeyError\<close>.\<close>

definition dict_get :: "pydict \<Rightarrow> string \<Rightarrow> json \<Rightarrow> json" where
  "dict_get d k dflt = (case map_of d k of None \<Rightarrow> dflt | Some v \<Rightarrow> v)"

definition dict_item :: "pydict \<Rightarrow> string \<Rightarrow> exn + json" where
  "dict_item d k = (case map_of d k of None \<Rightarrow> Inl KeyError | Some v \<Rightarrow> Inr v)"

text \<open>
  \<^verbatim>\<open>try: ... except (ValueError, TypeError): <default>\<close>: these two exceptions give
  the default, every other one propagates.
\<close>

definition except_value_type :: "exn + 'a \<Rightarrow> 'a \<Rightarrow> exn + 'a" where
  "except_value_type r dflt =
     (case r of
        Inr v \<Rightarrow> Inr v
      | Inl e \<Rightarrow> if e = ValueError \<or> e = TypeError then Inr dflt else Inl e)"

section \<open>The record normalizer\<close>

definition basic_fields :: "string list" where
  "basic_fields =
     [''overall'', ''verified'', ''reviewTime'', ''reviewerID'',
      ''asin'', ''style'', ''reviewerName'', ''reviewText'',
      ''summary'', ''unixReviewTime'']"

definition text_fields :: "string list" where
  "text_fields = [''reviewText'', ''summary'', ''reviewerName'']"

text \<open>Line 90, one turn of the loop: \<^verbatim>\<open>cleaned[field] = record.get(field, '')\<close>.\<close>

definition extract_field :: "pydict \<Rightarrow> string \<Rightarrow> pydict \<Rightarrow> pydict" where
  "extract_field record field cleaned =
     AList.update field (dict_get record field (JStr [])) cleaned"

text \<open>Lines 93 to 98.\<close>

definition images_value :: "pylib \<Rightarrow> pydict \<Rightarrow> json" where
  "images_value L record =
     (let images = dict_get record ''images'' (JDict [])
      in case images of
           JDict kvs \<Rightarrow> JStr (if truthy images then json_dumps L kvs else [])
         | _ \<Rightarrow> JStr (if truthy images then py_str L images else []))"

text \<open>Lines 101 and 102.\<close>

definition vote_value :: "pylib \<Rightarrow> pydict \<Rightarrow> json" where
  "vote_value L record =
     (let vote = dict_get record ''vote'' (JStr [])
      in JStr (if truthy vote then py_str L vote else []))"

text \<open>Lines 108 and 109 on the value of one text field.\<close>

definition clean_text :: "pylib \<Rightarrow> json \<Rightarrow> string" where
  "clean_text L v =
     str_join '' '' (split_ws
       (replace_char (CHR 0x0D) CHR '' '' (replace_char (CHR 0x0A) CHR '' '' (py_str L v))))"

text \<open>Lines 107 to 109, one turn of the loop over the text fields.\<close>

definition clean_text_field :: "pylib \<Rightarrow> string \<Rightarrow> pydict \<Rightarrow> pydict" where
  "clean_text_field L field cleaned =
     (case map_of cleaned field of
        None \<Rightarrow> cleaned
      | Some v \<Rightarrow>
          if truthy v then AList.update field (JStr (clean_text L v)) cleaned else cleaned)"

text \<open>Lines 112 to 115.\<close>

definition convert_overall :: "pylib \<Rightarrow> pydict \<Rightarrow> exn + pydict" where
  "convert_overall L cleaned =
     (case except_value_type
        (case dict_item cleaned ''overall'' of
           Inl e \<Rightarrow> Inl e
         | Inr v \<Rightarrow> if truthy v then py_float L v else Inr (Fin 0))
        (Fin 0) of
        Inl e \<Rightarrow> Inl e
      | Inr f \<Rightarrow> Inr (AList.update ''overall'' (JFloat f) cleaned))"

text \<open>Lines 117 to 120.\<close>

definition convert_unix_time :: "pylib \<Rightarrow> pydict \<Rightarrow> exn + pydict" where
  "convert_unix_time L cleaned =
     (case except_value_type
        (case dict_item cleaned ''unixReviewTime'' of
           Inl e \<Rightarrow> Inl e
         | Inr v \<Rightarrow> if truthy v then py_int L v else Inr 0)
        0 of
        Inl e \<Rightarrow> Inl e
      | Inr n \<Rightarrow> Inr (AList.update ''unixReviewTime'' (JInt n) cleaned))"

text \<open>Line 123.\<close>

definition convert_verified :: "pylib \<Rightarrow> pydict \<Rightarrow> exn + pydict" where
  "convert_verified L cleaned =
     (case dict_item cleaned ''verified'' of
        Inl e \<Rightarrow> Inl e
      | Inr v \<Rightarrow>
          Inr (AList.update ''verified''
                 (JBool (lower (py_str L v) \<in> set [''true'', ''1'', ''yes''])) cleaned))"

definition clean_and_flatten_record :: "pylib \<Rightarrow> pydict \<Rightarrow> exn + pydict" where
  "clean_and_flatten_record L record =
     (let cleaned = fold (extract_field record) basic_fields [];
          cleaned = AList.update ''images'' (images_value L record) cleaned;
          cleaned = AList.update ''vote'' (vote_value L record) cleaned;
          cleaned = fold (clean_text_field L) text_fields cleaned
      in case convert_overall L cleaned of
           Inl e \<Rightarrow> Inl e
         | Inr cleaned \<Rightarrow>
             (case convert_unix_time L cleaned of
                Inl e \<Rightarrow> Inl e
              | Inr cleaned \<Rightarrow> convert_verified L cleaned))"

section \<open>The record reader\<close>

text \<open>
  One constructor for each logging call of the two scripts; the numbers are the ones the
  message formats. Clock readings and elapsed times printed in a message are left out.
\<close>

datatype log_entry =
    ReadingFile
  | SkippingMalformed nat
  | ProcessedLines nat
  | ErrorReadingFile exn
  | StartingConversion
  | ChunkSize int
  | ChunkProcessed nat nat
  | TotalProgress nat
  | FinalChunk nat
  | ConversionCompleted
  | TotalRecordsConverted nat
  | TotalTime
  | AverageSpeed
  | ErrorDuringConversion exn
  | InputFileNotFound
  | SuccessfullyConverted nat
  | ConversionFailed exn
  | StartingIngestion
  | BatchSize int
  | BatchProcessed nat nat
  | ErrorProcessingBatch nat exn
  | FailedBatchSize nat
  | IngestionCompleted
  | TotalRowsProcessed nat
  | CriticalError exn
  | RowsBeforeFailure nat

text \<open>
  \<^verbatim>\<open>read_jsonl_file\<close> is a generator. Its run over the lines of a readable file is the
  list of what it does in order: a record handed to the consumer, a log entry, or an
  exception that ends it. Failures of opening or reading the file are not modelled.
\<close>

datatype event = Yield json | Log log_entry | Raise exn

text \<open>
  Lines 51 to 67, from line number \<open>line_num\<close> on. A \<^verbatim>\<open>JSONDecodeError\<close> is caught
  at line 58; any other exception of the decoder reaches line 65.
\<close>

fun read_lines :: "pylib \<Rightarrow> nat \<Rightarrow> string list \<Rightarrow> event list" where
  "read_lines L line_num [] = []"
| "read_lines L line_num (l # ls) =
     (let line = strip l
      in if line = [] then read_lines L (Suc line_num) ls
         else case json_loads L line of
                Inr v \<Rightarrow>
                  Yield v #
                  (if line_num mod 100000 = 0 then [Log (ProcessedLines line_num)] else []) @
                  read_lines L (Suc line_num) ls
              | Inl e \<Rightarrow>
                  if e = JSONDecodeError
                  then Log (SkippingMalformed line_num) # read_lines L (Suc line_num) ls
                  else [Log (ErrorReadingFile e), Raise e])"

definition read_jsonl_file :: "pylib \<Rightarrow> string list \<Rightarrow> event list" where
  "read_jsonl_file L file_lines = Log ReadingFile # read_lines L 1 file_lines"

text \<open>The records a run yields, the log entries it writes, and whether it raises.\<close>

fun yielded :: "event list \<Rightarrow> json list" where
  "yielded [] = []"
| "yielded (Yield v # evs) = v # yielded evs"
| "yielded (Log e # evs) = yielded evs"
| "yielded (Raise e # evs) = yielded evs"

fun logged_by :: "event list \<Rightarrow> log_entry list" where
  "logged_by [] = []"
| "logged_by (Yield v # evs) = logged_by evs"
| "logged_by (Log e # evs) = e # logged_by evs"
| "logged_by (Raise e # evs) = logged_by evs"

fun raises :: "event list \<Rightarrow> bool" where
  "raises [] = False"
| "raises (Yield v # evs) = raises evs"
| "raises (Log e # evs) = raises evs"
| "raises (Raise e # evs) = True"

section \<open>The chunked writer\<close>

text \<open>
  One call of \<^verbatim>\<open>DataFrame(chunk_data).to_csv(csv_file, mode, header, ...)\<close>: whether
  it appends (\<^verbatim>\<open>mode='a'\<close>) or truncates (\<^verbatim>\<open>mode='w'\<close>), whether it writes the
  header line, and the rows. Write failures are not modelled.
\<close>

record csv_call =
  append_mode :: bool
  write_header :: bool
  rows :: "pydict list"

record conv_state =
  chunk_data :: "pydict list"
  chunk_count :: nat
  total_records :: nat
  csv_calls :: "csv_call list"
  logged :: "log_entry list"

definition log_info :: "log_entry list \<Rightarrow> conv_state \<Rightarrow> conv_state" where
  "log_info es s = s\<lparr>logged := logged s @ es\<rparr>"

text \<open>Lines 154 to 177: the chunk is full.\<close>

definition write_full_chunk :: "conv_state \<Rightarrow> conv_state" where
  "write_full_chunk s =
     (let count = chunk_count s + 1;
          call = \<lparr>append_mode = (1 < count), write_header = (count = 1), rows = chunk_data s\<rparr>;
          n = total_records s + length (chunk_data s)
      in s\<lparr>chunk_count := count,
            csv_calls := csv_calls s @ [call],
            total_records := n,
            logged := logged s @ [ChunkProcessed count (length (chunk_data s)), TotalProgress n],
            chunk_data := []\<rparr>)"

text \<open>Lines 150 to 177: one cleaned record is added to the chunk.\<close>

definition add_record :: "int \<Rightarrow> pydict \<Rightarrow> conv_state \<Rightarrow> conv_state" where
  "add_record chunk_size cleaned_record s =
     (let s = s\<lparr>chunk_data := chunk_data s @ [cleaned_record]\<rparr>
      in if chunk_size \<le> int (length (chunk_data s)) then write_full_chunk s else s)"

text \<open>Lines 180 to 195: what is left after the loop.\<close>

definition write_final_chunk :: "conv_state \<Rightarrow> conv_state" where
  "write_final_chunk s =
     (if chunk_data s = [] then s
      else let count = chunk_count s + 1;
               call = \<lparr>append_mode = (1 < count), write_header = (count = 1),
                       rows = chunk_data s\<rparr>
           in s\<lparr>chunk_count := count,
                 csv_calls := csv_calls s @ [call],
                 total_records := total_records s + length (chunk_data s),
                 logged := logged s @ [FinalChunk (length (chunk_data s))]\<rparr>)"

text \<open>
  \<^verbatim>\<open>clean_and_flatten_record(record)\<close> at line 149: a decoded line that is not a
  dict has no \<^verbatim>\<open>get\<close>.
\<close>

definition clean_decoded :: "pylib \<Rightarrow> json \<Rightarrow> exn + pydict" where
  "clean_decoded L v =
     (case v of JDict kvs \<Rightarrow> clean_and_flatten_record L kvs | _ \<Rightarrow> Inl AttributeError)"

text \<open>Lines 147 to 177: the loop over the reader. An exception ends it.\<close>

fun convert_loop :: "pylib \<Rightarrow> int \<Rightarrow> event list \<Rightarrow> conv_state \<Rightarrow> conv_state \<times> exn option" where
  "convert_loop L chunk_size [] s = (s, None)"
| "convert_loop L chunk_size (Log e # evs) s = convert_loop L chunk_size evs (log_info [e] s)"
| "convert_loop L chunk_size (Raise e # evs) s = (s, Some e)"
| "convert_loop L chunk_size (Yield v # evs) s =
     (case clean_decoded L v of
        Inl e \<Rightarrow> (s, Some e)
      | Inr cleaned_record \<Rightarrow> convert_loop L chunk_size evs (add_record chunk_size cleaned_record s))"

text \<open>
  \<^verbatim>\<open>convert_jsonl_to_csv\<close>, lines 136 to 207. \<open>start_time\<close> and \<open>end_time\<close> are the
  readings of \<^verbatim>\<open>time.time()\<close> at lines 136 and 197; line 201 divides by their
  difference, which is zero exactly when they are equal.
\<close>

definition convert_jsonl_to_csv ::
  "pylib \<Rightarrow> string list \<Rightarrow> int \<Rightarrow> rat \<Rightarrow> rat \<Rightarrow> conv_state \<times> (exn + nat)" where
  "convert_jsonl_to_csv L file_lines chunk_size start_time end_time =
     (let s = \<lparr>chunk_data = [], chunk_count = 0, total_records = 0, csv_calls = [],
                logged = [StartingConversion, ChunkSize chunk_size]\<rparr>
      in case convert_loop L chunk_size (read_jsonl_file L file_lines) s of
           (s, Some e) \<Rightarrow> (log_info [ErrorDuringConversion e] s, Inl e)
         | (s, None) \<Rightarrow>
             (let s = write_final_chunk s;
                  total_time = end_time - start_time;
                  s = log_info [ConversionCompleted, TotalRecordsConverted (total_records s),
                                TotalTime] s
              in if total_time = 0
                 then (log_info [ErrorDuringConversion ZeroDivisionError] s,
                       Inl ZeroDivisionError)
                 else (log_info [AverageSpeed] s, Inr (total_records s))))"

text \<open>
  \<^verbatim>\<open>main\<close>, lines 231 to 253: the input file is its lines, or \<open>None\<close> when there is no
  such file. The result is the final state and the exit code.
\<close>

definition main_convert ::
  "pylib \<Rightarrow> string list option \<Rightarrow> int \<Rightarrow> rat \<Rightarrow> rat \<Rightarrow> conv_state \<times> int" where
  "main_convert L input_file chunk_size start_time end_time =
     (case input_file of
        None \<Rightarrow>
          (\<lparr>chunk_data = [], chunk_count = 0, total_records = 0, csv_calls = [],
            logged = [InputFileNotFound]\<rparr>, 1)
      | Some file_lines \<Rightarrow>
          (case convert_jsonl_to_csv L file_lines chunk_size start_time end_time of
             (s, Inr n) \<Rightarrow> (log_info [SuccessfullyConverted n] s, 0)
           | (s, Inl e) \<Rightarrow> (log_info [ConversionFailed e] s, 1)))"

text \<open>
  The output file after a list of \<^verbatim>\<open>to_csv\<close> calls: \<open>None\<close> while it does not exist.
  The header names the columns of the frame, the keys of its rows in order of first
  appearance.
\<close>

datatype csv_line = Header "string list" | Row pydict

definition frame_columns :: "pydict list \<Rightarrow> string list" where
  "frame_columns rs = fold (\<lambda>r cols. cols @ filter (\<lambda>k. k \<notin> set cols) (map fst r)) rs []"

definition to_csv :: "csv_call \<Rightarrow> csv_line list option \<Rightarrow> csv_line list option" where
  "to_csv call file =
     Some ((if append_mode call then (case file of None \<Rightarrow> [] | Some ls \<Rightarrow> ls) else []) @
           (if write_header call then [Header (frame_columns (rows call))] else []) @
           map Row (rows call))"

definition file_after :: "csv_call list \<Rightarrow> csv_line list option \<Rightarrow> csv_line list option" where
  "file_after calls file = fold to_csv calls file"

section \<open>The load orchestrator\<close>

text \<open>
  A cell of a frame read by \<^verbatim>\<open>pandas.read_csv\<close>: a bool, an integer, a float (a
  missing value is the float not-a-number) or a str. A frame is its columns in order, all
  of one length.
\<close>

datatype cell = CBool bool | CInt int | CFloat pyfloat | CStr string

type_synonym dataframe = "(string \<times> cell list) list"

text \<open>\<^verbatim>\<open>len(df)\<close>: the number of rows.\<close>

definition df_len :: "dataframe \<Rightarrow> nat" where
  "df_len df = (case df of [] \<Rightarrow> 0 | (name, col) # rest \<Rightarrow> length col)"

definition isna :: "cell \<Rightarrow> bool" where
  "isna c = (c = CFloat NaN)"

text \<open>\<^verbatim>\<open>.fillna('')\<close> and \<^verbatim>\<open>.astype(str)\<close> on one cell.\<close>

definition fillna_empty :: "cell \<Rightarrow> cell" where
  "fillna_empty c = (if isna c then CStr [] else c)"

fun cell_str :: "pylib \<Rightarrow> cell \<Rightarrow> cell" where
  "cell_str L (CBool b) = CStr (if b then ''True'' else ''False'')"
| "cell_str L (CInt n) = CStr (str_of_int L n)"
| "cell_str L (CFloat f) = CStr (str_of_float L f)"
| "cell_str L (CStr s) = CStr s"

text \<open>
  \<^verbatim>\<open>.astype(int)\<close> casts a column to 64-bit integers, and the first cell that cannot
  be cast raises. A bool becomes 0 or 1. An integer or the integer a str parses to must
  fit 64 bits, or the cast raises \<^verbatim>\<open>OverflowError\<close>; a str that does not parse raises
  \<^verbatim>\<open>ValueError\<close>. A finite float is truncated towards zero and becomes \<open>- 2^63\<close> when
  the result does not fit; a missing value or an infinity raises \<^verbatim>\<open>ValueError\<close>.
\<close>

definition int64_of :: "int \<Rightarrow> exn + int" where
  "int64_of n = (if - (2 ^ 63) \<le> n \<and> n < 2 ^ 63 then Inr n else Inl OverflowError)"

definition int64_of_rat :: "rat \<Rightarrow> int" where
  "int64_of_rat q =
     (let n = (if 0 \<le> q then \<lfloor>q\<rfloor> else \<lceil>q\<rceil>)
      in if - (2 ^ 63) \<le> n \<and> n < 2 ^ 63 then n else - (2 ^ 63))"

fun cell_int :: "pylib \<Rightarrow> cell \<Rightarrow> exn + int" where
  "cell_int L (CBool b) = Inr (if b then 1 else 0)"
| "cell_int L (CInt n) = int64_of n"
| "cell_int L (CFloat (Fin q)) = Inr (int64_of_rat q)"
| "cell_int L (CFloat NegZero) = Inr 0"
| "cell_int L (CFloat PosInf) = Inl ValueError"
| "cell_int L (CFloat NegInf) = Inl ValueError"
| "cell_int L (CFloat NaN) = Inl ValueError"
| "cell_int L (CStr s) = (case int_of_str L s of None \<Rightarrow> Inl ValueError | Some n \<Rightarrow> int64_of n)"

fun astype_int :: "pylib \<Rightarrow> cell list \<Rightarrow> exn + cell list" where
  "astype_int L [] = Inr []"
| "astype_int L (c # cs) =
     (case cell_int L c of
        Inl e \<Rightarrow> Inl e
      | Inr n \<Rightarrow> (case astype_int L cs of Inl e \<Rightarrow> Inl e | Inr ns \<Rightarrow> Inr (CInt n # ns)))"

text \<open>
  \<^verbatim>\<open>pd.to_numeric(..., errors='coerce')\<close> on one cell: a str that does not parse as a
  number becomes a missing value (the parser is \<open>float_of_str\<close>), a bool becomes the
  float 1.0 or 0.0; then \<^verbatim>\<open>.fillna(0)\<close>.
\<close>

fun to_numeric_coerce :: "pylib \<Rightarrow> cell \<Rightarrow> cell" where
  "to_numeric_coerce L (CStr s) =
     (case float_of_str L s of None \<Rightarrow> CFloat NaN | Some f \<Rightarrow> CFloat f)"
| "to_numeric_coerce L (CBool b) = CFloat (Fin (if b then 1 else 0))"
| "to_numeric_coerce L (CInt n) = CInt n"
| "to_numeric_coerce L (CFloat f) = CFloat f"

definition fillna_zero :: "cell \<Rightarrow> cell" where
  "fillna_zero c = (if isna c then CFloat (Fin 0) else c)"

definition string_columns :: "string list" where
  "string_columns = [''title'', ''text'', ''images'', ''asin'', ''parent_asin'', ''user_id'']"

definition numeric_columns :: "string list" where
  "numeric_columns = [''rating'', ''timestamp'', ''helpful_vote'']"

text \<open>Lines 130 and 131, one turn of the loop.\<close>

definition fill_string_column :: "pylib \<Rightarrow> string \<Rightarrow> dataframe \<Rightarrow> dataframe" where
  "fill_string_column L col df =
     (case map_of df col of
        None \<Rightarrow> df
      | Some cs \<Rightarrow> AList.update col (map (\<lambda>c. cell_str L (fillna_empty c)) cs) df)"

text \<open>Lines 134 and 135.\<close>

definition cast_verified_purchase :: "pylib \<Rightarrow> dataframe \<Rightarrow> exn + dataframe" where
  "cast_verified_purchase L df =
     (case map_of df ''verified_purchase'' of
        None \<Rightarrow> Inr df
      | Some cs \<Rightarrow>
          (case astype_int L cs of
             Inl e \<Rightarrow> Inl e
           | Inr ns \<Rightarrow> Inr (AList.update ''verified_purchase'' ns df)))"

text \<open>Lines 140 and 141, one turn of the loop.\<close>

definition coerce_numeric_column :: "pylib \<Rightarrow> string \<Rightarrow> dataframe \<Rightarrow> dataframe" where
  "coerce_numeric_column L col df =
     (case map_of df col of
        None \<Rightarrow> df
      | Some cs \<Rightarrow> AList.update col (map (\<lambda>c. fillna_zero (to_numeric_coerce L c)) cs) df)"

definition preprocess_dataframe :: "pylib \<Rightarrow> dataframe \<Rightarrow> exn + dataframe" where
  "preprocess_dataframe L df =
     (let df = fold (fill_string_column L) string_columns df
      in case cast_verified_purchase L df of
           Inl e \<Rightarrow> Inl e
         | Inr df \<Rightarrow> Inr (fold (coerce_numeric_column L) numeric_columns df))"

text \<open>
  The sink is the external database behind \<^verbatim>\<open>clickhouse.sql_write\<close>. Its table is the
  list of the blocks inserted so far. What one insertion does is a parameter: given the
  number of the batch and the frame, \<open>None\<close> when it succeeds, or the exception it raises
  and how many leading rows of the batch it had inserted before.
\<close>

type_synonym sink_write = "nat \<Rightarrow> dataframe \<Rightarrow> (exn \<times> nat) option"

definition df_take :: "nat \<Rightarrow> dataframe \<Rightarrow> dataframe" where
  "df_take k df = map (\<lambda>(name, col). (name, take k col)) df"

record ingest_state =
  total_rows_processed :: nat
  batch_count :: nat
  submitted :: "dataframe list"
  sink :: "dataframe list"
  ingest_log :: "log_entry list"

text \<open>
  Lines 160 to 186: the loop over the chunks \<^verbatim>\<open>pd.read_csv\<close> yields. \<open>submitted\<close> lists
  the frames handed to \<^verbatim>\<open>sql_write\<close>.
\<close>

fun ingest_loop ::
  "pylib \<Rightarrow> sink_write \<Rightarrow> dataframe list \<Rightarrow> ingest_state \<Rightarrow> ingest_state \<times> exn option" where
  "ingest_loop L W [] s = (s, None)"
| "ingest_loop L W (chunk # chunks) s =
     (let k = batch_count s + 1
      in case preprocess_dataframe L chunk of
           Inl e \<Rightarrow>
             (s\<lparr>batch_count := k,
                ingest_log := ingest_log s @
                  [ErrorProcessingBatch k e, FailedBatchSize (df_len chunk)]\<rparr>, Some e)
         | Inr df \<Rightarrow>
             (case W k df of
                Some (e, inserted) \<Rightarrow>
                  (s\<lparr>batch_count := k,
                     submitted := submitted s @ [df],
                     sink := sink s @ [df_take inserted df],
                     ingest_log := ingest_log s @
                       [ErrorProcessingBatch k e, FailedBatchSize (df_len df)]\<rparr>, Some e)
              | None \<Rightarrow>
                  ingest_loop L W chunks
                    (s\<lparr>batch_count := k,
                       submitted := submitted s @ [df],
                       sink := sink s @ [df],
                       total_rows_processed := total_rows_processed s + df_len df,
                       ingest_log := ingest_log s @
                         [BatchProcessed k (df_len df),
                          TotalProgress (total_rows_processed s + df_len df)]\<rparr>)))"

text \<open>
  \<^verbatim>\<open>ingest_data_to_clickhouse\<close>, lines 149 to 199, started on a sink that holds
  \<open>sink0\<close>. \<open>chunks\<close> is what the iterator of line 158 yields. That
  \<^verbatim>\<open>pd.read_csv\<close> refuses a chunk size below 1 there, before any batch exists, is not
  modelled: \<open>batch_size\<close> reaches the log only. Line 192 divides by the elapsed time,
  as the converter does.
\<close>

definition ingest_data_to_clickhouse ::
  "pylib \<Rightarrow> sink_write \<Rightarrow> dataframe list \<Rightarrow> dataframe list \<Rightarrow> int \<Rightarrow> rat \<Rightarrow> rat \<Rightarrow>
   ingest_state \<times> (exn + nat)" where
  "ingest_data_to_clickhouse L W sink0 chunks batch_size start_time end_time =
     (let s = \<lparr>total_rows_processed = 0, batch_count = 0, submitted = [], sink = sink0,
                ingest_log = [StartingIngestion, BatchSize batch_size]\<rparr>
      in case ingest_loop L W chunks s of
           (s, Some e) \<Rightarrow>
             (s\<lparr>ingest_log := ingest_log s @
                  [CriticalError e, RowsBeforeFailure (total_rows_processed s)]\<rparr>, Inl e)
         | (s, None) \<Rightarrow>
             (let s = s\<lparr>ingest_log := ingest_log s @
                         [IngestionCompleted, TotalRowsProcessed (total_rows_processed s),
                          TotalTime]\<rparr>
              in if end_time - start_time = 0
                 then (s\<lparr>ingest_log := ingest_log s @
                           [CriticalError ZeroDivisionError,
                            RowsBeforeFailure (total_rows_processed s)]\<rparr>,
                       Inl ZeroDivisionError)
                 else (s\<lparr>ingest_log := ingest_log s @ [AverageSpeed]\<rparr>,
                       Inr (total_rows_processed s))))"

section \<open>A sample library\<close>

text \<open>
  A stand-in for the library parameters in the concrete runs below. It answers a few
  inputs as Python does and is arbitrary elsewhere; the runs use \<open>json_loads\<close> on the
  lines shown and no other parameter. \<open>sample_loads\<close> knows the empty object, the empty
  list, and that an integer of more than 4300 digits makes \<^verbatim>\<open>json.loads\<close> raise
  \<^verbatim>\<open>ValueError\<close>, the limit of \<^verbatim>\<open>int\<close> on the length of a decimal string; every other
  line it reports as malformed.
\<close>

definition sample_loads :: "string \<Rightarrow> exn + json" where
  "sample_loads s =
     (if 4300 < length s \<and> list_all (\<lambda>c. c \<in> set ''0123456789'') s then Inl ValueError
      else if s = ''{}'' then Inr (JDict [])
      else if s = ''[]'' then Inr (JList [])
      else Inl JSONDecodeError)"

definition sample_lib :: pylib where
  "sample_lib =
     \<lparr>float_of_str = (\<lambda>s. if s = ''4'' then Some (Fin 4) else None),
      int_of_str = (\<lambda>s. if s = ''1600000000'' then Some 1600000000 else None),
      str_of_int = (\<lambda>n. if n = 1 then ''1'' else ''0''),
      str_of_float = (\<lambda>f. ''0.0''),
      str_of_list = (\<lambda>xs. ''[]''),
      str_of_dict = (\<lambda>kvs. ''{}''),
      json_dumps = (\<lambda>kvs. ''{}''),
      json_loads = sample_loads\<rparr>"

section \<open>Derived notions\<close>

text \<open>
  What the normalizer computes from the raw record for each key, named so that its result
  can be written out: the value of lines 112 to 115, of lines 117 to 120, of lines 107 to
  109 for one text field, and of line 123.
\<close>

definition overall_result :: "pylib \<Rightarrow> pydict \<Rightarrow> exn + pyfloat" where
  "overall_result L raw =
     (let v = dict_get raw ''overall'' (JStr [])
      in except_value_type (if truthy v then py_float L v else Inr (Fin 0)) (Fin 0))"

definition unix_time_result :: "pylib \<Rightarrow> pydict \<Rightarrow> exn + int" where
  "unix_time_result L raw =
     (let v = dict_get raw ''unixReviewTime'' (JStr [])
      in except_value_type (if truthy v then py_int L v else Inr 0) 0)"

definition text_value :: "pylib \<Rightarrow> pydict \<Rightarrow> string \<Rightarrow> json" where
  "text_value L raw field =
     (let v = dict_get raw field (JStr [])
      in if truthy v then JStr (clean_text L v) else v)"

definition verified_value :: "pylib \<Rightarrow> pydict \<Rightarrow> json" where
  "verified_value L raw =
     JBool (lower (py_str L (dict_get raw ''verified'' (JStr []))) \<in>
            set [''true'', ''1'', ''yes''])"

definition cleaned_with :: "pylib \<Rightarrow> pydict \<Rightarrow> pyfloat \<Rightarrow> int \<Rightarrow> pydict" where
  "cleaned_with L raw f n =
     [(''overall'', JFloat f),
      (''verified'', verified_value L raw),
      (''reviewTime'', dict_get raw ''reviewTime'' (JStr [])),
      (''reviewerID'', dict_get raw ''reviewerID'' (JStr [])),
      (''asin'', dict_get raw ''asin'' (JStr [])),
      (''style'', dict_get raw ''style'' (JStr [])),
      (''reviewerName'', text_value L raw ''reviewerName''),
      (''reviewText'', text_value L raw ''reviewText''),
      (''summary'', text_value L raw ''summary''),
      (''unixReviewTime'', JInt n),
      (''images'', images_value L raw),
      (''vote'', vote_value L raw)]"

text \<open>
  The two conversions that raise an exception the normalizer does not catch: \<^verbatim>\<open>float\<close>
  of an int too large for a double, and \<^verbatim>\<open>int\<close> of an infinite float.
\<close>

definition float_overflows :: "json \<Rightarrow> bool" where
  "float_overflows v = (case v of JInt n \<Rightarrow> float_overflow_bound \<le> \<bar>n\<bar> | _ \<Rightarrow> False)"

definition int_overflows :: "json \<Rightarrow> bool" where
  "int_overflows v = (case v of JFloat f \<Rightarrow> f = PosInf \<or> f = NegInf | _ \<Rightarrow> False)"

definition overflows :: "pydict \<Rightarrow> bool" where
  "overflows raw =
     (float_overflows (dict_get raw ''overall'' (JStr [])) \<or>
      int_overflows (dict_get raw ''unixReviewTime'' (JStr [])))"

text \<open>A run of two or more consecutive spaces; a word of \<^verbatim>\<open>split\<close>.\<close>

fun double_space :: "string \<Rightarrow> bool" where
  "double_space [] = False"
| "double_space [a] = False"
| "double_space (a # b # cs) = ((a = CHR '' '' \<and> b = CHR '' '') \<or> double_space (b # cs))"

definition word_ok :: "string \<Rightarrow> bool" where
  "word_ok w = (w \<noteq> [] \<and> (\<forall>c\<in>set w. \<not> isspace c))"

text \<open>
  For the reader: a line is blank when nothing is left after \<^verbatim>\<open>strip\<close>; a non-blank
  line is malformed when the decoder raises \<^verbatim>\<open>JSONDecodeError\<close> on it, and the
  decoder fails on it when it raises anything else. \<open>decoded_lines\<close> lists the records
  of the lines that decode, in input order; \<open>skip_warnings\<close> the warning of each
  malformed line with its number, counted from 1.
\<close>

definition malformed :: "pylib \<Rightarrow> string \<Rightarrow> bool" where
  "malformed L l = (strip l \<noteq> [] \<and> json_loads L (strip l) = Inl JSONDecodeError)"

definition decoder_fails :: "pylib \<Rightarrow> string \<Rightarrow> bool" where
  "decoder_fails L l =
     (strip l \<noteq> [] \<and>
      (case json_loads L (strip l) of Inl e \<Rightarrow> e \<noteq> JSONDecodeError | Inr v \<Rightarrow> False))"

definition decoded_lines :: "pylib \<Rightarrow> string list \<Rightarrow> json list" where
  "decoded_lines L ls =
     concat (map (\<lambda>l. if strip l = [] then []
                       else (case json_loads L (strip l) of Inr v \<Rightarrow> [v] | Inl e \<Rightarrow> [])) ls)"

definition skip_warnings :: "pylib \<Rightarrow> nat \<Rightarrow> string list \<Rightarrow> log_entry list" where
  "skip_warnings L first ls =
     map (\<lambda>(n, l). SkippingMalformed n) (filter (\<lambda>(n, l). malformed L l) (enumerate first ls))"

fun is_skip_warning :: "log_entry \<Rightarrow> bool" where
  "is_skip_warning (SkippingMalformed n) = True"
| "is_skip_warning e = False"

text \<open>
  The state of the writer's loop after the records \<open>seen\<close>, for chunk size \<open>C\<close>: every
  call so far wrote a full chunk, the header went out with the first call only, the first
  call truncated the file and the later ones appended, and the rows written followed by
  the pending chunk are the records so far.
\<close>

definition writer_inv :: "nat \<Rightarrow> pydict list \<Rightarrow> conv_state \<Rightarrow> bool" where
  "writer_inv C seen s =
     (concat (map rows (csv_calls s)) @ chunk_data s = seen \<and>
      length (chunk_data s) < C \<and>
      map (\<lambda>call. length (rows call)) (csv_calls s) = replicate (length (csv_calls s)) C \<and>
      chunk_count s = length (csv_calls s) \<and>
      total_records s = length (csv_calls s) * C \<and>
      map write_header (csv_calls s) = map (\<lambda>i. i = 0) [0..<length (csv_calls s)] \<and>
      map append_mode (csv_calls s) = map (\<lambda>i. 0 < i) [0..<length (csv_calls s)])"

text \<open>A sink whose second insertion raises after one row went in; every other one succeeds.\<close>

definition sample_sink :: sink_write where
  "sample_sink k df = (if k = 2 then Some (OtherException, 1) else None)"

section \<open>The normalizer, key by key\<close>

lemma extracted:
  "fold (extract_field raw) basic_fields [] =
     [(''overall'', dict_get raw ''overall'' (JStr [])),
      (''verified'', dict_get raw ''verified'' (JStr [])),
      (''reviewTime'', dict_get raw ''reviewTime'' (JStr [])),
      (''reviewerID'', dict_get raw ''reviewerID'' (JStr [])),
      (''asin'', dict_get raw ''asin'' (JStr [])),
      (''style'', dict_get raw ''style'' (JStr [])),
      (''reviewerName'', dict_get raw ''reviewerName'' (JStr [])),
      (''reviewText'', dict_get raw ''reviewText'' (JStr [])),
      (''summary'', dict_get raw ''summary'' (JStr [])),
      (''unixReviewTime'', dict_get raw ''unixReviewTime'' (JStr []))]"
  by (simp add: basic_fields_def extract_field_def)

lemma clean_text_field_conv:
  assumes "map_of cleaned field = Some (dict_get raw field (JStr []))"
  shows "clean_text_field L field cleaned = AList.update field (text_value L raw field) cleaned"
  using assms by (simp add: clean_text_field_def text_value_def update_triv)

lemma convert_overall_conv:
  assumes "map_of cleaned ''overall'' = Some (dict_get raw ''overall'' (JStr []))"
  shows "convert_overall L cleaned =
     (case overall_result L raw of
        Inl e \<Rightarrow> Inl e
      | Inr f \<Rightarrow> Inr (AList.update ''overall'' (JFloat f) cleaned))"
  using assms by (simp add: convert_overall_def overall_result_def dict_item_def)

lemma convert_unix_time_conv:
  assumes "map_of cleaned ''unixReviewTime'' = Some (dict_get raw ''unixReviewTime'' (JStr []))"
  shows "convert_unix_time L cleaned =
     (case unix_time_result L raw of
        Inl e \<Rightarrow> Inl e
      | Inr n \<Rightarrow> Inr (AList.update ''unixReviewTime'' (JInt n) cleaned))"
  using assms by (simp add: convert_unix_time_def unix_time_result_def dict_item_def)

lemma convert_verified_conv:
  assumes "map_of cleaned ''verified'' = Some (dict_get raw ''verified'' (JStr []))"
  shows "convert_verified L cleaned =
     Inr (AList.update ''verified'' (verified_value L raw) cleaned)"
  using assms by (simp add: convert_verified_def verified_value_def dict_item_def)

lemma text_cleaned:
  "fold (clean_text_field L) text_fields
     (AList.update ''vote'' vo
        (AList.update ''images'' im (fold (extract_field raw) basic_fields []))) =
     [(''overall'', dict_get raw ''overall'' (JStr [])),
      (''verified'', dict_get raw ''verified'' (JStr [])),
      (''reviewTime'', dict_get raw ''reviewTime'' (JStr [])),
      (''reviewerID'', dict_get raw ''reviewerID'' (JStr [])),
      (''asin'', dict_get raw ''asin'' (JStr [])),
      (''style'', dict_get raw ''style'' (JStr [])),
      (''reviewerName'', text_value L raw ''reviewerName''),
      (''reviewText'', text_value L raw ''reviewText''),
      (''summary'', text_value L raw ''summary''),
      (''unixReviewTime'', dict_get raw ''unixReviewTime'' (JStr [])),
      (''images'', im),
      (''vote'', vo)]"
  by (simp add: extracted text_fields_def clean_text_field_conv [where raw = raw])

lemma clean_cases:
  "clean_and_flatten_record L raw =
     (case overall_result L raw of
        Inl e \<Rightarrow> Inl e
      | Inr f \<Rightarrow>
          (case unix_time_result L raw of
             Inl e \<Rightarrow> Inl e
           | Inr n \<Rightarrow> Inr (cleaned_with L raw f n)))"
  unfolding clean_and_flatten_record_def Let_def text_cleaned cleaned_with_def
  by (simp add: convert_overall_conv [where raw = raw]
      convert_unix_time_conv [where raw = raw]
      convert_verified_conv [where raw = raw] split: sum.splits)

lemma float_overflow_bound_pos: "0 < float_overflow_bound"
  by (simp add: float_overflow_bound_def)

lemma py_float_raises:
  "py_float L v = Inl e \<Longrightarrow> e = ValueError \<or> e = TypeError \<or> (e = OverflowError \<and> float_overflows v)"
  by (cases v) (auto simp: float_of_int_def float_overflows_def split: if_splits option.splits)

lemma py_float_overflows:
  "float_overflows v \<Longrightarrow> py_float L v = Inl OverflowError \<and> truthy v"
  using float_overflow_bound_pos
  by (cases v) (auto simp: float_of_int_def float_overflows_def)

lemma py_int_raises:
  assumes "py_int L v = Inl e"
  shows "e = ValueError \<or> e = TypeError \<or> (e = OverflowError \<and> int_overflows v)"
proof (cases v)
  case (JFloat f)
  with assms show ?thesis
    by (cases f) (auto simp: int_overflows_def)
qed (use assms in \<open>auto simp: int_overflows_def split: option.splits\<close>)

lemma py_int_overflows:
  "int_overflows v \<Longrightarrow> py_int L v = Inl OverflowError \<and> truthy v"
  by (cases v) (auto simp: int_overflows_def)

lemma overall_result_raises:
  "overall_result L raw = Inl e \<Longrightarrow>
     e = OverflowError \<and> float_overflows (dict_get raw ''overall'' (JStr []))"
  using py_float_raises [of L "dict_get raw ''overall'' (JStr [])" e]
  by (auto simp: overall_result_def except_value_type_def Let_def split: if_splits sum.splits)

lemma unix_time_result_raises:
  "unix_time_result L raw = Inl e \<Longrightarrow>
     e = OverflowError \<and> int_overflows (dict_get raw ''unixReviewTime'' (JStr []))"
  using py_int_raises [of L "dict_get raw ''unixReviewTime'' (JStr [])" e]
  by (auto simp: unix_time_result_def except_value_type_def Let_def split: if_splits sum.splits)

lemma overall_result_overflows:
  "float_overflows (dict_get raw ''overall'' (JStr [])) \<Longrightarrow> overall_result L raw = Inl OverflowError"
  using py_float_overflows [of "dict_get raw ''overall'' (JStr [])" L]
  by (simp add: overall_result_def except_value_type_def)

lemma unix_time_result_overflows:
  "int_overflows (dict_get raw ''unixReviewTime'' (JStr [])) \<Longrightarrow>
     unix_time_result L raw = Inl OverflowError"
  using py_int_overflows [of "dict_get raw ''unixReviewTime'' (JStr [])" L]
  by (simp add: unix_time_result_def except_value_type_def)

lemma clean_raises_overflow:
  assumes "overflows raw"
  shows "clean_and_flatten_record L raw = Inl OverflowError"
proof (cases "float_overflows (dict_get raw ''overall'' (JStr []))")
  case True
  then show ?thesis
    by (simp add: clean_cases overall_result_overflows)
next
  case False
  with assms have "int_overflows (dict_get raw ''unixReviewTime'' (JStr []))"
    by (simp add: overflows_def)
  then have u: "unix_time_result L raw = Inl OverflowError"
    by (rule unix_time_result_overflows)
  show ?thesis
  proof (cases "overall_result L raw")
    case (Inl e)
    then show ?thesis
      using overall_result_raises [of L raw e] by (simp add: clean_cases)
  next
    case (Inr f)
    then show ?thesis
      using u by (simp add: clean_cases)
  qed
qed

lemma clean_returns:
  assumes "\<not> overflows raw"
  shows "\<exists>f n. overall_result L raw = Inr f \<and> unix_time_result L raw = Inr n \<and>
           clean_and_flatten_record L raw = Inr (cleaned_with L raw f n)"
proof -
  obtain f where f: "overall_result L raw = Inr f"
    using assms overall_result_raises [of L raw]
    by (cases "overall_result L raw") (auto simp: overflows_def)
  obtain n where n: "unix_time_result L raw = Inr n"
    using assms unix_time_result_raises [of L raw]
    by (cases "unix_time_result L raw") (auto simp: overflows_def)
  show ?thesis
    using f n by (simp add: clean_cases)
qed

lemma clean_returns_iff:
  "(\<exists>cleaned. clean_and_flatten_record L raw = Inr cleaned) \<longleftrightarrow> \<not> overflows raw"
  using clean_raises_overflow [of raw L] clean_returns [of raw L] by auto

section \<open>Whitespace\<close>

lemma isspace_space [simp]: "isspace CHR '' ''"
  by (simp add: isspace_def)

lemma isspace_newline [simp]: "isspace (CHR 0x0A)" "isspace (CHR 0x0D)"
  by (simp_all add: isspace_def)

lemma split_from_words:
  assumes "\<forall>c\<in>set w. \<not> isspace c"
  shows "\<forall>x\<in>set (split_from w s). word_ok x"
  using assms
proof (induction s arbitrary: w)
  case Nil
  then show ?case by (simp add: word_ok_def)
next
  case (Cons a s)
  show ?case
  proof (cases "isspace a")
    case True
    have "\<forall>x\<in>set (split_from [] s). word_ok x"
      using Cons.IH [of "[]"] by simp
    then show ?thesis
      using True Cons.prems by (simp add: word_ok_def)
  next
    case False
    have "\<forall>x\<in>set (split_from (w @ [a]) s). word_ok x"
      using Cons.IH [of "w @ [a]"] Cons.prems False by simp
    then show ?thesis
      using False by simp
  qed
qed

lemma split_ws_words: "\<forall>x\<in>set (split_ws s). word_ok x"
  using split_from_words [of "[]" s] by (simp add: split_ws_def)

lemma split_from_replace:
  assumes "isspace old"
  shows "split_from w (replace_char old CHR '' '' s) = split_from w s"
  using assms by (induction s arbitrary: w) (auto simp: replace_char_def)

lemma split_from_all_space:
  assumes "\<forall>c\<in>set s. isspace c"
  shows "split_from [] s = []"
  using assms by (induction s) auto

lemma split_from_word:
  assumes "\<forall>c\<in>set x. \<not> isspace c"
  shows "split_from w (x @ s) = split_from (w @ x) s"
  using assms by (induction x arbitrary: w) auto

lemma split_join:
  assumes "\<forall>x\<in>set ws. word_ok x"
  shows "split_from [] (str_join '' '' ws) = ws"
  using assms
proof (induction "'' ''" ws rule: str_join.induct)
  case 1
  then show ?case by simp
next
  case (2 w)
  then show ?case
    using split_from_word [of w "[]" "[]"] by (simp add: word_ok_def)
next
  case (3 w v ws)
  then show ?case
    using split_from_word [of w "[]" "CHR '' '' # str_join '' '' (v # ws)"]
    by (simp add: word_ok_def)
qed

lemma set_str_join:
  "set (str_join sep ws) \<subseteq> set sep \<union> (\<Union>w\<in>set ws. set w)"
  by (induction sep ws rule: str_join.induct) auto

lemma join_only_spaces:
  assumes "\<forall>x\<in>set ws. word_ok x" and "c \<in> set (str_join '' '' ws)" and "isspace c"
  shows "c = CHR '' ''"
  using assms set_str_join [of "'' ''" ws] by (auto simp: word_ok_def)

lemma join_hd:
  assumes "\<forall>x\<in>set ws. word_ok x" and "ws \<noteq> []"
  shows "str_join '' '' ws \<noteq> [] \<and> \<not> isspace (hd (str_join '' '' ws))"
  using assms by (induction "'' ''" ws rule: str_join.induct) (auto simp: word_ok_def)

lemma join_last:
  assumes "\<forall>x\<in>set ws. word_ok x" and "ws \<noteq> []"
  shows "\<not> isspace (last (str_join '' '' ws))"
  using assms by (induction "'' ''" ws rule: str_join.induct) (auto simp: word_ok_def join_hd)

lemma double_space_append:
  "double_space (xs @ ys) \<longleftrightarrow>
     double_space xs \<or> double_space ys \<or>
     (xs \<noteq> [] \<and> ys \<noteq> [] \<and> last xs = CHR '' '' \<and> hd ys = CHR '' '')"
proof (induction xs rule: double_space.induct)
  case 1
  then show ?case by simp
next
  case (2 a)
  then show ?case by (cases ys) auto
next
  case (3 a b cs)
  then show ?case by auto
qed

lemma word_no_double_space:
  assumes "\<forall>c\<in>set w. \<not> isspace c"
  shows "\<not> double_space w"
  using assms by (induction w rule: double_space.induct) auto

lemma join_no_double_space:
  assumes "\<forall>x\<in>set ws. word_ok x"
  shows "\<not> double_space (str_join '' '' ws)"
  using assms
proof (induction "'' ''" ws rule: str_join.induct)
  case 1
  then show ?case by simp
next
  case (2 w)
  then show ?case by (simp add: word_ok_def word_no_double_space)
next
  case (3 w v ws)
  have w: "w \<noteq> []" "\<forall>c\<in>set w. \<not> isspace c"
    using "3.prems" by (auto simp: word_ok_def)
  have rest: "\<forall>x\<in>set (v # ws). word_ok x"
    using "3.prems" by simp
  have hd: "\<not> isspace (hd (str_join '' '' (v # ws)))" "str_join '' '' (v # ws) \<noteq> []"
    using join_hd [OF rest] by simp_all
  have "\<not> double_space (CHR '' '' # str_join '' '' (v # ws))"
    using "3.hyps" rest hd by (cases "str_join '' '' (v # ws)") auto
  moreover have "last w \<noteq> CHR '' ''"
    using w by (metis isspace_space last_in_set)
  ultimately show ?case
    using w by (simp add: double_space_append word_no_double_space)
qed

lemma clean_text_join:
  "clean_text L v = str_join '' '' (split_ws (py_str L v))"
  by (simp add: clean_text_def split_ws_def split_from_replace)

lemma text_value_truthy:
  assumes "truthy (dict_get raw field (JStr []))"
  shows "text_value L raw field = JStr (str_join '' '' (split_ws (py_str L (dict_get raw field (JStr [])))))"
  using assms by (simp add: text_value_def clean_text_join)

lemma map_of_cleaned_text:
  assumes "field \<in> set text_fields"
  shows "map_of (cleaned_with L raw f n) field = Some (text_value L raw field)"
  using assms by (auto simp: text_fields_def cleaned_with_def)

lemma newline_not_space: "CHR 0x0A \<noteq> CHR '' ''" "CHR 0x0D \<noteq> CHR '' ''"
  by simp_all

section \<open>Claims about the normalizer\<close>

text \<open>
  C1. The claim is that the normalizer never raises. The conversions of lines 113 and 118
  catch \<^verbatim>\<open>ValueError\<close> and \<^verbatim>\<open>TypeError\<close> only: on a record whose
  \<^verbatim>\<open>unixReviewTime\<close> is an infinite float (the JSON number \<^verbatim>\<open>1e999\<close>), and on one whose
  \<^verbatim>\<open>overall\<close> is an int too large for a double, the \<^verbatim>\<open>OverflowError\<close> of the
  conversion leaves the function.
\<close>

theorem clean_and_flatten_record_overflow_escapes:
  "clean_and_flatten_record L [(''unixReviewTime'', JFloat PosInf)] = Inl OverflowError \<and>
   clean_and_flatten_record L [(''overall'', JInt (10 ^ 400))] = Inl OverflowError"
proof -
  have "overflows [(''unixReviewTime'', JFloat PosInf)]"
    by (simp add: overflows_def dict_get_def int_overflows_def)
  moreover have "(2::int) ^ 1024 \<le> 10 ^ 400"
    by simp
  then have "overflows [(''overall'', JInt (10 ^ 400))]"
    by (simp add: overflows_def dict_get_def float_overflows_def float_overflow_bound_def)
  ultimately show ?thesis
    by (simp add: clean_raises_overflow)
qed

text \<open>
  C3. For every raw record the normalizer returns for, the \<^verbatim>\<open>verified\<close> entry is the
  bool that says whether the lowercased string form of the raw value (the empty string
  when the key is absent) is one of \<^verbatim>\<open>true\<close>, \<^verbatim>\<open>1\<close>, \<^verbatim>\<open>yes\<close>; it is false when
  the raw value is \<^verbatim>\<open>false\<close>, \<^verbatim>\<open>0\<close>, \<^verbatim>\<open>no\<close>, the empty string, or absent.
\<close>

theorem verified_iff_truthy_string:
  assumes "\<not> overflows raw"
  shows "\<exists>cleaned. clean_and_flatten_record L raw = Inr cleaned \<and>
           map_of cleaned ''verified'' =
             Some (JBool (lower (py_str L (dict_get raw ''verified'' (JStr []))) \<in>
                          {''true'', ''1'', ''yes''})) \<and>
           (map_of raw ''verified'' \<in>
              {None, Some (JStr ''false''), Some (JStr ''0''), Some (JStr ''no''), Some (JStr [])}
            \<longrightarrow> map_of cleaned ''verified'' = Some (JBool False))"
proof -
  obtain f n where c: "clean_and_flatten_record L raw = Inr (cleaned_with L raw f n)"
    using clean_returns [OF assms] by blast
  have v: "map_of (cleaned_with L raw f n) ''verified'' = Some (verified_value L raw)"
    by (simp add: cleaned_with_def)
  have "verified_value L raw = JBool False"
    if "map_of raw ''verified'' \<in>
          {None, Some (JStr ''false''), Some (JStr ''0''), Some (JStr ''no''), Some (JStr [])}"
    using that by (auto simp: verified_value_def dict_get_def lower_def lower_char_def)
  then show ?thesis
    using c v by (auto simp: verified_value_def)
qed

theorem verified_iff_truthy_string_witness:
  "\<not> overflows [(''verified'', JStr ''Yes'')] \<and>
   (\<exists>cleaned. clean_and_flatten_record sample_lib [(''verified'', JStr ''Yes'')] = Inr cleaned \<and>
      map_of cleaned ''verified'' = Some (JBool True))"
proof -
  have h: "\<not> overflows [(''verified'', JStr ''Yes'')]"
    by (simp add: overflows_def dict_get_def float_overflows_def int_overflows_def)
  have "lower (py_str sample_lib (dict_get [(''verified'', JStr ''Yes'')] ''verified'' (JStr [])))
          = ''yes''"
    by code_simp
  then show ?thesis
    using h verified_iff_truthy_string [OF h, of sample_lib] by auto
qed

lemma clean_text_props:
  fixes L v
  defines "t \<equiv> clean_text L v"
  shows "(t \<noteq> [] \<longrightarrow> \<not> isspace (hd t) \<and> \<not> isspace (last t))"
    and "\<forall>c\<in>set t. isspace c \<longrightarrow> c = CHR '' ''"
    and "\<not> double_space t"
    and "split_ws t = split_ws (py_str L v)"
    and "(\<forall>c\<in>set (py_str L v). isspace c) \<longrightarrow> t = []"
proof -
  let ?ws = "split_ws (py_str L v)"
  have t: "t = str_join '' '' ?ws"
    by (simp add: t_def clean_text_join)
  have ok: "\<forall>x\<in>set ?ws. word_ok x"
    by (rule split_ws_words)
  show "t \<noteq> [] \<longrightarrow> \<not> isspace (hd t) \<and> \<not> isspace (last t)"
    using join_hd [OF ok] join_last [OF ok] t by (cases "?ws = []") auto
  show "\<forall>c\<in>set t. isspace c \<longrightarrow> c = CHR '' ''"
    using join_only_spaces [OF ok] t by blast
  show "\<not> double_space t"
    using join_no_double_space [OF ok] t by simp
  show "split_ws t = split_ws (py_str L v)"
    using split_join [OF ok] t by (simp add: split_ws_def)
  show "(\<forall>c\<in>set (py_str L v). isspace c) \<longrightarrow> t = []"
    using split_from_all_space [of "py_str L v"] t by (auto simp: split_ws_def)
qed

text \<open>
  C4. The text fields are the three of \<open>text_fields\<close>. When the raw value of one of them
  is a string \<open>s\<close> with a line feed, a carriage return or a run of spaces in it, the
  normalized value is the string \<open>t\<close> got from \<open>s\<close> by replacing every line feed and
  every carriage return by a space, splitting at whitespace and joining the words with
  one space. So \<open>t\<close> has no line feed, no carriage return and no two consecutive spaces;
  its only whitespace character is the space, and none stands at either end; and its
  words are the words of \<open>s\<close>, in order.
\<close>

theorem text_fields_lose_newlines_and_space_runs:
  assumes "field \<in> set text_fields"
    and "map_of raw field = Some (JStr s)"
    and "CHR 0x0A \<in> set s \<or> CHR 0x0D \<in> set s \<or> double_space s"
    and "\<not> overflows raw"
  shows "\<exists>cleaned t. clean_and_flatten_record L raw = Inr cleaned \<and>
           map_of cleaned field = Some (JStr t) \<and>
           t = str_join '' ''
                 (split_ws (replace_char (CHR 0x0D) CHR '' '' (replace_char (CHR 0x0A) CHR '' '' s))) \<and>
           CHR 0x0A \<notin> set t \<and> CHR 0x0D \<notin> set t \<and> \<not> double_space t \<and>
           (\<forall>c\<in>set t. isspace c \<longrightarrow> c = CHR '' '') \<and>
           (t \<noteq> [] \<longrightarrow> \<not> isspace (hd t) \<and> \<not> isspace (last t)) \<and>
           split_ws t = split_ws s"
proof -
  let ?t = "clean_text L (JStr s)"
  obtain f n where c: "clean_and_flatten_record L raw = Inr (cleaned_with L raw f n)"
    using clean_returns [OF assms(4)] by blast
  have "s \<noteq> []"
    using assms(3) by auto
  then have "text_value L raw field = JStr ?t"
    using assms(2) by (simp add: text_value_def dict_get_def)
  then have m: "map_of (cleaned_with L raw f n) field = Some (JStr ?t)"
    using map_of_cleaned_text [OF assms(1)] by simp
  have two_steps: "?t = str_join '' ''
      (split_ws (replace_char (CHR 0x0D) CHR '' '' (replace_char (CHR 0x0A) CHR '' '' s)))"
    by (simp add: clean_text_def)
  have only_spaces: "\<forall>c\<in>set ?t. isspace c \<longrightarrow> c = CHR '' ''"
    by (rule clean_text_props(2))
  have no_newline: "CHR 0x0A \<notin> set ?t" "CHR 0x0D \<notin> set ?t"
    using only_spaces isspace_newline newline_not_space by blast+
  have ends: "?t \<noteq> [] \<longrightarrow> \<not> isspace (hd ?t) \<and> \<not> isspace (last ?t)"
    by (rule clean_text_props(1))
  have no_run: "\<not> double_space ?t"
    by (rule clean_text_props(3))
  have same_words: "split_ws ?t = split_ws s"
    using clean_text_props(4) [of L "JStr s"] by simp
  show ?thesis
    apply (rule exI [of _ "cleaned_with L raw f n"])
    apply (rule exI [of _ ?t])
    using c m two_steps no_newline no_run only_spaces ends same_words by blast
qed

theorem text_fields_lose_newlines_and_space_runs_witness:
  "''reviewText'' \<in> set text_fields \<and>
   map_of [(''reviewText'', JStr [CHR ''a'', CHR 0x0A, CHR '' '', CHR '' '', CHR ''b''])] ''reviewText'' =
     Some (JStr [CHR ''a'', CHR 0x0A, CHR '' '', CHR '' '', CHR ''b'']) \<and>
   CHR 0x0A \<in> set [CHR ''a'', CHR 0x0A, CHR '' '', CHR '' '', CHR ''b''] \<and>
   \<not> overflows [(''reviewText'', JStr [CHR ''a'', CHR 0x0A, CHR '' '', CHR '' '', CHR ''b''])] \<and>
   (\<exists>cleaned.
      clean_and_flatten_record sample_lib
        [(''reviewText'', JStr [CHR ''a'', CHR 0x0A, CHR '' '', CHR '' '', CHR ''b''])] = Inr cleaned \<and>
      map_of cleaned ''reviewText'' = Some (JStr ''a b''))"
proof -
  let ?s = "[CHR ''a'', CHR 0x0A, CHR '' '', CHR '' '', CHR ''b'']"
  have 1: "''reviewText'' \<in> set text_fields"
    by (simp add: text_fields_def)
  have 2: "map_of [(''reviewText'', JStr ?s)] ''reviewText'' = Some (JStr ?s)"
    by simp
  have 3: "CHR 0x0A \<in> set ?s \<or> CHR 0x0D \<in> set ?s \<or> double_space ?s"
    by simp
  have 4: "\<not> overflows [(''reviewText'', JStr ?s)]"
    by (simp add: overflows_def dict_get_def float_overflows_def int_overflows_def)
  obtain cleaned t where c: "clean_and_flatten_record sample_lib [(''reviewText'', JStr ?s)] = Inr cleaned"
    and m: "map_of cleaned ''reviewText'' = Some (JStr t)"
    and t: "t = str_join '' ''
      (split_ws (replace_char (CHR 0x0D) CHR '' '' (replace_char (CHR 0x0A) CHR '' '' ?s)))"
    using text_fields_lose_newlines_and_space_runs [OF 1 2 3 4, of sample_lib] by blast
  have "t = ''a b''"
    unfolding t by (simp add: replace_char_def split_ws_def isspace_def)
  then show ?thesis
    using 1 2 4 c m by simp
qed

text \<open>
  C9. For a text field whose raw value is true in Python's sense, or the empty string or
  absent, the normalized value is a string that neither starts nor ends with whitespace,
  whose only whitespace character is the space, with no two spaces in a row, and with the
  same words as the string form of the raw value: every maximal run of whitespace has
  become one space. When the raw text is whitespace only, the result is empty.
\<close>

theorem text_fields_whitespace_collapsed:
  assumes "field \<in> set text_fields"
    and "v = dict_get raw field (JStr [])"
    and "truthy v \<or> v = JStr []"
    and "\<not> overflows raw"
  shows "\<exists>cleaned t. clean_and_flatten_record L raw = Inr cleaned \<and>
           map_of cleaned field = Some (JStr t) \<and>
           (t \<noteq> [] \<longrightarrow> \<not> isspace (hd t) \<and> \<not> isspace (last t)) \<and>
           (\<forall>c\<in>set t. isspace c \<longrightarrow> c = CHR '' '') \<and>
           \<not> double_space t \<and>
           split_ws t = split_ws (py_str L v) \<and>
           ((\<forall>c\<in>set (py_str L v). isspace c) \<longrightarrow> t = [])"
proof -
  obtain f n where c: "clean_and_flatten_record L raw = Inr (cleaned_with L raw f n)"
    using clean_returns [OF assms(4)] by blast
  have tv: "text_value L raw field = JStr (clean_text L v)"
  proof (cases "truthy v")
    case True
    then show ?thesis
      using assms(2) by (simp add: text_value_def)
  next
    case False
    then have "v = JStr []"
      using assms(3) by simp
    moreover have "clean_text L (JStr []) = []"
      by (simp add: clean_text_join split_ws_def)
    ultimately show ?thesis
      using assms(2) by (simp add: text_value_def)
  qed
  have m: "map_of (cleaned_with L raw f n) field = Some (JStr (clean_text L v))"
    using map_of_cleaned_text [OF assms(1)] tv by simp
  show ?thesis
    using c m clean_text_props [of L v] by blast
qed

theorem text_fields_whitespace_collapsed_witness:
  "''summary'' \<in> set text_fields \<and>
   truthy (dict_get [(''summary'', JStr [CHR 0x09, CHR ''a'', CHR 0x0C, CHR '' '', CHR ''b'', CHR '' ''])]
             ''summary'' (JStr [])) \<and>
   \<not> overflows [(''summary'', JStr [CHR 0x09, CHR ''a'', CHR 0x0C, CHR '' '', CHR ''b'', CHR '' ''])] \<and>
   (\<exists>cleaned.
      clean_and_flatten_record sample_lib
        [(''summary'', JStr [CHR 0x09, CHR ''a'', CHR 0x0C, CHR '' '', CHR ''b'', CHR '' ''])] =
        Inr cleaned \<and>
      map_of cleaned ''summary'' = Some (JStr ''a b''))"
proof -
  let ?s = "[CHR 0x09, CHR ''a'', CHR 0x0C, CHR '' '', CHR ''b'', CHR '' '']"
  let ?raw = "[(''summary'', JStr ?s)]"
  have 1: "''summary'' \<in> set text_fields"
    by (simp add: text_fields_def)
  have 2: "JStr ?s = dict_get ?raw ''summary'' (JStr [])"
    by (simp add: dict_get_def)
  have 3: "truthy (JStr ?s) \<or> JStr ?s = JStr []"
    by simp
  have 4: "\<not> overflows ?raw"
    by (simp add: overflows_def dict_get_def float_overflows_def int_overflows_def)
  obtain cleaned t where c: "clean_and_flatten_record sample_lib ?raw = Inr cleaned"
    and m: "map_of cleaned ''summary'' = Some (JStr t)"
    and w: "split_ws t = split_ws (py_str sample_lib (JStr ?s))"
    and d: "\<not> double_space t"
    using text_fields_whitespace_collapsed [OF 1 2 3 4, of sample_lib] by blast
  have "clean_and_flatten_record sample_lib ?raw = Inr (cleaned_with sample_lib ?raw (Fin 0) 0)"
    by (simp add: clean_cases overall_result_def unix_time_result_def dict_get_def
        except_value_type_def)
  then have "cleaned = cleaned_with sample_lib ?raw (Fin 0) 0"
    using c by simp
  moreover have "clean_text sample_lib (JStr ?s) = ''a b''"
    by (simp add: clean_text_join split_ws_def isspace_def)
  ultimately have "map_of cleaned ''summary'' = Some (JStr ''a b'')"
    by (simp add: cleaned_with_def text_value_def dict_get_def)
  then show ?thesis
    using 1 2 3 4 c by simp
qed

text \<open>
  C5. When an allow-listed key is absent from the raw record, the normalized record holds
  the empty string for it; \<open>0.0\<close> for \<^verbatim>\<open>overall\<close>, \<open>0\<close> for \<^verbatim>\<open>unixReviewTime\<close> and
  \<open>False\<close> for \<^verbatim>\<open>verified\<close>.
\<close>

theorem missing_field_gets_default:
  assumes "map_of raw field = None"
    and "\<not> overflows raw"
  shows "\<exists>cleaned. clean_and_flatten_record L raw = Inr cleaned \<and>
           (field \<in> {''reviewTime'', ''reviewerID'', ''asin'', ''style'', ''reviewerName'',
                     ''reviewText'', ''summary'', ''images'', ''vote''}
            \<longrightarrow> map_of cleaned field = Some (JStr [])) \<and>
           (field = ''overall'' \<longrightarrow> map_of cleaned field = Some (JFloat (Fin 0))) \<and>
           (field = ''unixReviewTime'' \<longrightarrow> map_of cleaned field = Some (JInt 0)) \<and>
           (field = ''verified'' \<longrightarrow> map_of cleaned field = Some (JBool False))"
proof -
  obtain f n where f: "overall_result L raw = Inr f"
    and n: "unix_time_result L raw = Inr n"
    and c: "clean_and_flatten_record L raw = Inr (cleaned_with L raw f n)"
    using clean_returns [OF assms(2)] by blast
  have d: "dict_get raw field dflt = dflt" for dflt
    using assms(1) by (simp add: dict_get_def)
  have "field = ''overall'' \<longrightarrow> f = Fin 0"
    using f d [of "JStr []"] by (auto simp: overall_result_def except_value_type_def)
  moreover have "field = ''unixReviewTime'' \<longrightarrow> n = 0"
    using n d [of "JStr []"] by (auto simp: unix_time_result_def except_value_type_def)
  moreover have "field = ''verified'' \<longrightarrow> verified_value L raw = JBool False"
    using d [of "JStr []"] by (auto simp: verified_value_def lower_def)
  moreover have "field = ''images'' \<longrightarrow> images_value L raw = JStr []"
    using d [of "JDict []"] by (auto simp: images_value_def)
  moreover have "field = ''vote'' \<longrightarrow> vote_value L raw = JStr []"
    using d [of "JStr []"] by (auto simp: vote_value_def)
  moreover have "field \<in> set text_fields \<longrightarrow> text_value L raw field = JStr []"
    using d [of "JStr []"] by (simp add: text_value_def)
  ultimately show ?thesis
    using c d [of "JStr []"] by (auto simp: cleaned_with_def text_fields_def)
qed

theorem missing_field_gets_default_witness:
  "map_of [(''asin'', JStr ''B001'')] ''overall'' = None \<and>
   \<not> overflows [(''asin'', JStr ''B001'')] \<and>
   (\<exists>cleaned. clean_and_flatten_record sample_lib [(''asin'', JStr ''B001'')] = Inr cleaned \<and>
      map_of cleaned ''overall'' = Some (JFloat (Fin 0)))"
proof -
  have 1: "map_of [(''asin'', JStr ''B001'')] ''overall'' = None"
    by simp
  have 2: "\<not> overflows [(''asin'', JStr ''B001'')]"
    by (simp add: overflows_def dict_get_def float_overflows_def int_overflows_def)
  show ?thesis
    using 1 2 missing_field_gets_default [OF 1 2, of sample_lib] by auto
qed

section \<open>Claims about the reader\<close>

text \<open>
  On a file none of whose lines makes the decoder raise anything but
  \<^verbatim>\<open>JSONDecodeError\<close>, the reader does not raise, yields exactly the records of the
  non-blank lines that decode, in input order, and logs one warning for each malformed
  line, with its line number. The example is a malformed line, a blank line and a valid
  line: one record, one warning.
\<close>

lemma reader_skips_blank_and_malformed_lines:
  assumes "\<forall>l\<in>set file_lines. \<not> decoder_fails L l"
  shows "\<not> raises (read_jsonl_file L file_lines) \<and>
         yielded (read_jsonl_file L file_lines) = decoded_lines L file_lines \<and>
         filter is_skip_warning (logged_by (read_jsonl_file L file_lines)) =
           skip_warnings L 1 file_lines"
proof -
  have from_line: "\<not> raises (read_lines L n ls) \<and>
         yielded (read_lines L n ls) = decoded_lines L ls \<and>
         filter is_skip_warning (logged_by (read_lines L n ls)) = skip_warnings L n ls"
    if "\<forall>l\<in>set ls. \<not> decoder_fails L l" for n ls
    using that
    proof (induction ls arbitrary: n)
      case Nil
      then show ?case
        by (simp add: decoded_lines_def skip_warnings_def)
    next
      case (Cons l ls)
      have ih: "\<not> raises (read_lines L (Suc n) ls)"
        "yielded (read_lines L (Suc n) ls) = decoded_lines L ls"
        "filter is_skip_warning (logged_by (read_lines L (Suc n) ls)) = skip_warnings L (Suc n) ls"
        using Cons.IH [of "Suc n"] Cons.prems by simp_all
      have dl: "decoded_lines L (l # ls) =
          (if strip l = [] then []
           else (case json_loads L (strip l) of Inr v \<Rightarrow> [v] | Inl e \<Rightarrow> [])) @ decoded_lines L ls"
        by (simp add: decoded_lines_def)
      have sw: "skip_warnings L n (l # ls) =
          (if malformed L l then [SkippingMalformed n] else []) @ skip_warnings L (Suc n) ls"
        by (simp add: skip_warnings_def)
      show ?case
      proof (cases "strip l = []")
        case True
        then show ?thesis
          using ih by (simp add: dl sw malformed_def)
      next
        case False
        show ?thesis
        proof (cases "json_loads L (strip l)")
          case (Inl e)
          then have "e = JSONDecodeError"
            using Cons.prems False by (simp add: decoder_fails_def)
          then show ?thesis
            using ih False Inl by (simp add: dl sw malformed_def)
        next
          case (Inr v)
          then show ?thesis
            using ih False by (simp add: dl sw malformed_def)
        qed
      qed
    qed
  show ?thesis
    using from_line [OF assms, of 1] by (simp add: read_jsonl_file_def)
qed

lemma reader_skips_malformed_line_example:
  "\<not> decoder_fails sample_lib ''{not valid json'' \<and>
   \<not> decoder_fails sample_lib '' '' \<and>
   \<not> decoder_fails sample_lib ''{}'' \<and>
   \<not> raises (read_jsonl_file sample_lib [''{not valid json'', '' '', ''{}'']) \<and>
   yielded (read_jsonl_file sample_lib [''{not valid json'', '' '', ''{}'']) = [JDict []] \<and>
   filter is_skip_warning (logged_by (read_jsonl_file sample_lib [''{not valid json'', '' '', ''{}''])) =
     [SkippingMalformed 1]"
proof -
  have s: "strip ''{not valid json'' = ''{not valid json''" "strip '' '' = []" "strip ''{}'' = ''{}''"
    by (simp_all add: strip_def isspace_def)
  have h: "\<forall>l\<in>set [''{not valid json'', '' '', ''{}'']. \<not> decoder_fails sample_lib l"
    by (simp add: decoder_fails_def s sample_lib_def sample_loads_def)
  have d: "decoded_lines sample_lib [''{not valid json'', '' '', ''{}''] = [JDict []]"
    by (simp add: decoded_lines_def s sample_lib_def sample_loads_def)
  have w: "skip_warnings sample_lib 1 [''{not valid json'', '' '', ''{}''] = [SkippingMalformed 1]"
    by (simp add: skip_warnings_def malformed_def s sample_lib_def sample_loads_def enumerate_eq_zip
        upt_rec)
  show ?thesis
    using h reader_skips_blank_and_malformed_lines [OF h] unfolding d w by simp
qed

lemma strip_unchanged:
  assumes "s \<noteq> []" and "\<not> isspace (hd s)" and "\<not> isspace (last s)"
  shows "strip s = s"
proof -
  have "dropWhile isspace s = s"
    using assms(1,2) by (cases s) simp_all
  moreover have "dropWhile isspace (rev s) = rev s"
    using assms(1,3) by (cases "rev s") (simp_all add: last_rev [symmetric] del: last_rev)
  ultimately show ?thesis
    by (simp add: strip_def)
qed

lemma long_integer_line:
  "strip (replicate 4301 CHR ''1'') = replicate 4301 CHR ''1''"
  "json_loads sample_lib (replicate 4301 CHR ''1'') = Inl ValueError"
proof -
  show "strip (replicate 4301 CHR ''1'') = replicate 4301 CHR ''1''"
    by (rule strip_unchanged) (simp_all add: isspace_def)
  show "json_loads sample_lib (replicate 4301 CHR ''1'') = Inl ValueError"
    by (simp add: sample_lib_def sample_loads_def list_all_iff)
qed

text \<open>
  C6. The claim is that no decode failure ends the read. Line 58 catches
  \<^verbatim>\<open>JSONDecodeError\<close> only. When the decoder raises another exception on a non-blank
  line (\<^verbatim>\<open>ValueError\<close> on an integer of more than 4300 digits, \<^verbatim>\<open>RecursionError\<close> on
  deeply nested brackets), line 65 catches it, line 66 logs it and line 67 raises it
  again: the read ends there. The records of the lines before it have been yielded;
  those of the lines after it never are, however well-formed.
\<close>

theorem reader_aborts_on_other_decoder_exception:
  assumes "\<forall>l\<in>set before. \<not> decoder_fails L l"
    and "strip line \<noteq> []"
    and "json_loads L (strip line) = Inl e"
    and "e \<noteq> JSONDecodeError"
  shows "raises (read_jsonl_file L (before @ line # after)) \<and>
         yielded (read_jsonl_file L (before @ line # after)) = decoded_lines L before \<and>
         ErrorReadingFile e \<in> set (logged_by (read_jsonl_file L (before @ line # after)))"
proof -
  have from_line: "raises (read_lines L n (ls @ line # after)) \<and>
         yielded (read_lines L n (ls @ line # after)) = decoded_lines L ls \<and>
         ErrorReadingFile e \<in> set (logged_by (read_lines L n (ls @ line # after)))"
    if "\<forall>l\<in>set ls. \<not> decoder_fails L l" for n ls
    using that
  proof (induction ls arbitrary: n)
    case Nil
    then show ?case
      using assms(2,3,4) by (simp add: decoded_lines_def)
  next
    case (Cons l ls)
    have ih: "raises (read_lines L (Suc n) (ls @ line # after))"
      "yielded (read_lines L (Suc n) (ls @ line # after)) = decoded_lines L ls"
      "ErrorReadingFile e \<in> set (logged_by (read_lines L (Suc n) (ls @ line # after)))"
      using Cons.IH [of "Suc n"] Cons.prems by simp_all
    have dl: "decoded_lines L (l # ls) =
        (if strip l = [] then []
         else (case json_loads L (strip l) of Inr v \<Rightarrow> [v] | Inl e \<Rightarrow> [])) @ decoded_lines L ls"
      by (simp add: decoded_lines_def)
    show ?case
    proof (cases "strip l = []")
      case True
      then show ?thesis
        using ih by (simp add: dl)
    next
      case False
      show ?thesis
      proof (cases "json_loads L (strip l)")
        case (Inl e')
        then have "e' = JSONDecodeError"
          using Cons.prems False by (simp add: decoder_fails_def)
        then show ?thesis
          using ih False Inl by (simp add: dl)
      next
        case (Inr v)
        then show ?thesis
          using ih False by (simp add: dl)
      qed
    qed
  qed
  show ?thesis
    using from_line [OF assms(1), of 1] by (simp add: read_jsonl_file_def)
qed

theorem reader_aborts_on_other_decoder_exception_witness:
  "strip (replicate 4301 CHR ''1'') \<noteq> [] \<and>
   json_loads sample_lib (strip (replicate 4301 CHR ''1'')) = Inl ValueError \<and>
   ValueError \<noteq> JSONDecodeError \<and>
   decoded_lines sample_lib [''{}''] = [JDict []] \<and>
   raises (read_jsonl_file sample_lib [replicate 4301 CHR ''1'', ''{}'']) \<and>
   yielded (read_jsonl_file sample_lib [replicate 4301 CHR ''1'', ''{}'']) = []"
proof -
  let ?line = "replicate 4301 CHR ''1''"
  have 1: "\<forall>l\<in>set []. \<not> decoder_fails sample_lib l"
    by simp
  have 2: "strip ?line \<noteq> []"
    by (simp add: long_integer_line)
  have 3: "json_loads sample_lib (strip ?line) = Inl ValueError"
    by (simp add: long_integer_line)
  have 4: "ValueError \<noteq> JSONDecodeError"
    by simp
  have s: "strip ''{}'' = ''{}''"
    by (simp add: strip_def isspace_def)
  have d: "decoded_lines sample_lib [''{}''] = [JDict []]"
    by (simp add: decoded_lines_def s sample_lib_def sample_loads_def)
  have "raises (read_jsonl_file sample_lib ([] @ ?line # [''{}''])) \<and>
        yielded (read_jsonl_file sample_lib ([] @ ?line # [''{}''])) = decoded_lines sample_lib []"
    using reader_aborts_on_other_decoder_exception [OF 1 2 3 4, of "[''{}'']"] by blast
  then show ?thesis
    using 2 3 d by (simp add: decoded_lines_def)
qed

section \<open>Claims about the chunked writer\<close>

lemma writer_inv_log: "writer_inv C seen (log_info es s) = writer_inv C seen s"
  by (simp add: writer_inv_def log_info_def)

lemma writer_inv_add:
  assumes "writer_inv C seen s" and "1 \<le> C"
  shows "writer_inv C (seen @ [c]) (add_record (int C) c s)"
proof (cases "C \<le> Suc (length (chunk_data s))")
  case True
  then have full: "Suc (length (chunk_data s)) = C"
    using assms(1) by (simp add: writer_inv_def)
  show ?thesis
    using assms(1) full assms(2)
    by (simp add: writer_inv_def add_record_def write_full_chunk_def Let_def
        replicate_append_same)
next
  case False
  then show ?thesis
    using assms(1) by (simp add: writer_inv_def add_record_def Let_def)
qed

lemma convert_loop_writes:
  assumes "\<not> raises evs"
    and "map (clean_decoded L) (yielded evs) = map Inr cs"
    and "writer_inv C seen s"
    and "1 \<le> C"
  shows "\<exists>s'. convert_loop L (int C) evs s = (s', None) \<and> writer_inv C (seen @ cs) s'"
  using assms
proof (induction evs arbitrary: s seen cs)
  case Nil
  then show ?case by simp
next
  case (Cons ev evs)
  show ?case
  proof (cases ev)
    case (Yield v)
    then obtain c cs' where cs: "cs = c # cs'" and c: "clean_decoded L v = Inr c"
      and rest: "map (clean_decoded L) (yielded evs) = map Inr cs'"
      using Cons.prems(2) by (cases cs) auto
    have inv': "writer_inv C (seen @ [c]) (add_record (int C) c s)"
      using Cons.prems(3,4) by (rule writer_inv_add)
    have nr: "\<not> raises evs"
      using Cons.prems(1) Yield by simp
    from Cons.IH [OF nr rest inv' Cons.prems(4)]
    obtain s' where "convert_loop L (int C) evs (add_record (int C) c s) = (s', None)"
      and "writer_inv C ((seen @ [c]) @ cs') s'"
      by blast
    then show ?thesis
      using Yield c cs by simp
  next
    case (Log e)
    then show ?thesis
      using Cons.IH [of cs seen "log_info [e] s"] Cons.prems by (simp add: writer_inv_log)
  next
    case (Raise e)
    then show ?thesis
      using Cons.prems(1) by simp
  qed
qed

lemma header_once: "length (filter (\<lambda>i. i = 0) [0..<k]) = (if k = 0 then 0 else 1)"
  by (induction k) auto

lemma ceiling_div_mod:
  assumes "0 < C"
  shows "\<lceil>real N / real C\<rceil> = int (N div C + (if N mod C = 0 then 0 else 1))"
proof -
  have "real N = real (N div C) * real C + real (N mod C)"
    by (metis div_mult_mod_eq of_nat_add of_nat_mult)
  then have x: "real N / real C = real (N div C) + real (N mod C) / real C"
    using assms by (simp add: field_simps)
  have lt: "real (N mod C) / real C < 1"
    using assms by simp
  show ?thesis
  proof (cases "N mod C = 0")
    case True
    then show ?thesis
      using x by simp
  next
    case False
    then have "0 < real (N mod C) / real C"
      using assms by simp
    then have "\<lceil>real N / real C\<rceil> = int (N div C) + 1"
      using x lt by (intro ceiling_unique) simp_all
    then show ?thesis
      using False by simp
  qed
qed

lemma final_chunk_writes:
  assumes "writer_inv C cs s" and "0 < C"
  shows "int (length (csv_calls (write_final_chunk s))) = \<lceil>real (length cs) / real C\<rceil>"
    and "concat (map rows (csv_calls (write_final_chunk s))) = cs"
    and "map (\<lambda>call. length (rows call)) (csv_calls (write_final_chunk s)) =
           replicate (length cs div C) C @ (if length cs mod C = 0 then [] else [length cs mod C])"
    and "map write_header (csv_calls (write_final_chunk s)) =
           map (\<lambda>i. i = 0) [0..<length (csv_calls (write_final_chunk s))]"
    and "map append_mode (csv_calls (write_final_chunk s)) =
           map (\<lambda>i. 0 < i) [0..<length (csv_calls (write_final_chunk s))]"
    and "total_records (write_final_chunk s) = length cs"
    and "chunk_count (write_final_chunk s) = length (csv_calls (write_final_chunk s))"
proof -
  let ?k = "length (csv_calls s)" and ?r = "length (chunk_data s)"
  have rows: "concat (map rows (csv_calls s)) @ chunk_data s = cs"
    and r: "?r < C"
    and sizes: "map (\<lambda>call. length (rows call)) (csv_calls s) = replicate ?k C"
    and cnt: "chunk_count s = ?k"
    and tot: "total_records s = ?k * C"
    and hdr: "map write_header (csv_calls s) = map (\<lambda>i. i = 0) [0..<?k]"
    and app: "map append_mode (csv_calls s) = map (\<lambda>i. 0 < i) [0..<?k]"
    using assms(1) by (simp_all add: writer_inv_def)
  have "length (concat (map rows (csv_calls s))) = ?k * C"
    using sizes by (simp add: length_concat comp_def sum_list_replicate)
  then have n: "length cs = ?k * C + ?r"
    using rows by (metis length_append)
  have dv: "length cs div C = ?k" and md: "length cs mod C = ?r"
    using n r by simp_all
  show "int (length (csv_calls (write_final_chunk s))) = \<lceil>real (length cs) / real C\<rceil>"
    using dv md by (simp add: ceiling_div_mod [OF assms(2)] write_final_chunk_def Let_def)
  show "concat (map rows (csv_calls (write_final_chunk s))) = cs"
    using rows by (auto simp: write_final_chunk_def Let_def)
  show "map (\<lambda>call. length (rows call)) (csv_calls (write_final_chunk s)) =
           replicate (length cs div C) C @ (if length cs mod C = 0 then [] else [length cs mod C])"
    using sizes dv md by (simp add: write_final_chunk_def Let_def)
  show "map write_header (csv_calls (write_final_chunk s)) =
           map (\<lambda>i. i = 0) [0..<length (csv_calls (write_final_chunk s))]"
    using hdr cnt by (simp add: write_final_chunk_def Let_def)
  show "map append_mode (csv_calls (write_final_chunk s)) =
           map (\<lambda>i. 0 < i) [0..<length (csv_calls (write_final_chunk s))]"
    using app cnt by (simp add: write_final_chunk_def Let_def)
  show "total_records (write_final_chunk s) = length cs"
    using tot n by (simp add: write_final_chunk_def Let_def)
  show "chunk_count (write_final_chunk s) = length (csv_calls (write_final_chunk s))"
    using cnt by (simp add: write_final_chunk_def Let_def)
qed

lemma writer_inv_initial:
  assumes "0 < C"
  shows "writer_inv C []
           \<lparr>chunk_data = [], chunk_count = 0, total_records = 0, csv_calls = [], logged = es\<rparr>"
  using assms by (simp add: writer_inv_def)

lemma csv_calls_log_info: "csv_calls (log_info es s) = csv_calls s"
  and total_records_log_info: "total_records (log_info es s) = total_records s"
  by (simp_all add: log_info_def)

lemma header_count:
  assumes "map write_header calls = map (\<lambda>i. i = 0) [0..<length calls]"
  shows "length (filter write_header calls) = (if calls = [] then 0 else 1)"
proof -
  have "length (filter write_header calls) = length (filter (\<lambda>b. b) (map write_header calls))"
    by (simp add: filter_map comp_def)
  also have "\<dots> = length (filter (\<lambda>i. i = 0) [0..<length calls])"
    by (simp add: assms filter_map comp_def)
  finally show ?thesis
    by (simp add: header_once)
qed

lemma fold_to_csv_appends:
  assumes "\<forall>c\<in>set calls. append_mode c \<and> \<not> write_header c"
  shows "fold to_csv calls (Some ls) = Some (ls @ map Row (concat (map rows calls)))"
  using assms
proof (induction calls arbitrary: ls)
  case Nil
  show ?case by simp
next
  case (Cons c calls)
  have c: "append_mode c" "\<not> write_header c"
    using Cons.prems by simp_all
  have step: "to_csv c (Some ls) = Some (ls @ map Row (rows c))"
    using c by (simp add: to_csv_def)
  have rest: "\<forall>d\<in>set calls. append_mode d \<and> \<not> write_header d"
    using Cons.prems by simp
  have "fold to_csv calls (Some (ls @ map Row (rows c))) =
      Some ((ls @ map Row (rows c)) @ map Row (concat (map rows calls)))"
    using rest by (rule Cons.IH)
  then show ?case
    using step by simp
qed

lemma call_flags:
  assumes "map write_header calls = map (\<lambda>i. i = 0) [0..<length calls]"
    and "map append_mode calls = map (\<lambda>i. 0 < i) [0..<length calls]"
    and "i < length calls"
  shows "write_header (calls ! i) = (i = 0)" and "append_mode (calls ! i) = (0 < i)"
proof -
  have "write_header (calls ! i) = map write_header calls ! i"
    using assms(3) by simp
  also have "\<dots> = map (\<lambda>i. i = 0) [0..<length calls] ! i"
    by (rule arg_cong [OF assms(1)])
  also have "\<dots> = (i = 0)"
    using assms(3) by simp
  finally show "write_header (calls ! i) = (i = 0)" .
  have "append_mode (calls ! i) = map append_mode calls ! i"
    using assms(3) by simp
  also have "\<dots> = map (\<lambda>i. 0 < i) [0..<length calls] ! i"
    by (rule arg_cong [OF assms(2)])
  also have "\<dots> = (0 < i)"
    using assms(3) by simp
  finally show "append_mode (calls ! i) = (0 < i)" .
qed


lemma file_after_calls:
  assumes "calls \<noteq> []"
    and "map write_header calls = map (\<lambda>i. i = 0) [0..<length calls]"
    and "map append_mode calls = map (\<lambda>i. 0 < i) [0..<length calls]"
  shows "file_after calls file0 =
           Some (Header (frame_columns (rows (hd calls))) # map Row (concat (map rows calls)))"
proof -
  obtain c rest where calls: "calls = c # rest"
    using assms(1) by (cases calls) auto
  have first: "write_header c" "\<not> append_mode c"
    using call_flags [OF assms(2,3), of 0] calls by simp_all
  have later: "append_mode d \<and> \<not> write_header d" if "d \<in> set rest" for d
  proof -
    from that obtain i where i: "i < length rest" "rest ! i = d"
      by (auto simp: in_set_conv_nth)
    have "Suc i < length calls" "calls ! Suc i = d"
      using i calls by simp_all
    then show ?thesis
      using call_flags [OF assms(2,3), of "Suc i"] by simp
  qed
  have "fold to_csv rest (Some (Header (frame_columns (rows c)) # map Row (rows c))) =
      Some ((Header (frame_columns (rows c)) # map Row (rows c)) @
            map Row (concat (map rows rest)))"
    by (rule fold_to_csv_appends) (simp add: later)
  moreover have "to_csv c file0 = Some (Header (frame_columns (rows c)) # map Row (rows c))"
    using first by (simp add: to_csv_def)
  ultimately show ?thesis
    using calls by (simp add: file_after_def)
qed

lemma strip_sample: "strip ''{}'' = ''{}''" "strip ''{bad'' = ''{bad''" "strip [] = []"
  by (simp_all add: strip_def isspace_def)

lemma read_sample:
  "read_jsonl_file sample_lib [''{}'', ''{bad'', ''{}'', ''{}''] =
     [Log ReadingFile, Yield (JDict []), Log (SkippingMalformed 2), Yield (JDict []),
      Yield (JDict [])]"
  by (simp add: read_jsonl_file_def strip_sample sample_lib_def sample_loads_def)

lemma clean_empty:
  "clean_decoded L (JDict []) = Inr (cleaned_with L [] (Fin 0) 0)"
  by (simp add: clean_decoded_def clean_cases overall_result_def unix_time_result_def
      dict_get_def except_value_type_def)

text \<open>
  C2, as amended. When the reader does not raise and the records it yields normalize to
  the \<open>N\<close> records \<open>cs\<close>, the converter with chunk size \<open>C \<ge> 1\<close> calls \<^verbatim>\<open>to_csv\<close>
  exactly \<open>\<lceil>N / C\<rceil>\<close> times; the rows of the calls, in order, are \<open>cs\<close>; every call but
  the last writes \<open>C\<close> rows and the last the remainder; the first call, and no other,
  writes the header and truncates the file, the later ones append; and the record count
  is \<open>N\<close>. The header is written once when \<open>N \<ge> 1\<close> and not at all when \<open>N = 0\<close>:
  the output file is then the header line followed by the \<open>N\<close> rows, whatever it held
  before, and is left as it was when \<open>N = 0\<close>.
\<close>

theorem chunked_writer_groups:
  assumes "1 \<le> chunk_size"
    and "\<not> raises (read_jsonl_file L file_lines)"
    and "map (clean_decoded L) (yielded (read_jsonl_file L file_lines)) = map Inr cs"
  shows "\<exists>s res.
           convert_jsonl_to_csv L file_lines chunk_size start_time end_time = (s, res) \<and>
           int (length (csv_calls s)) = \<lceil>real (length cs) / real_of_int chunk_size\<rceil> \<and>
           concat (map rows (csv_calls s)) = cs \<and>
           map (\<lambda>call. length (rows call)) (csv_calls s) =
             replicate (length cs div nat chunk_size) (nat chunk_size) @
             (if length cs mod nat chunk_size = 0 then [] else [length cs mod nat chunk_size]) \<and>
           map write_header (csv_calls s) = map (\<lambda>i. i = 0) [0..<length (csv_calls s)] \<and>
           map append_mode (csv_calls s) = map (\<lambda>i. 0 < i) [0..<length (csv_calls s)] \<and>
           length (filter write_header (csv_calls s)) = (if cs = [] then 0 else 1) \<and>
           total_records s = length cs \<and>
           file_after (csv_calls s) file0 =
             (if cs = [] then file0
              else Some (Header (frame_columns (rows (hd (csv_calls s)))) # map Row cs))"
proof -
  let ?C = "nat chunk_size"
  let ?s0 = "\<lparr>chunk_data = [], chunk_count = 0, total_records = 0, csv_calls = [],
              logged = [StartingConversion, ChunkSize chunk_size]\<rparr>"
  have C: "0 < ?C" "1 \<le> ?C" "int ?C = chunk_size" "real ?C = real_of_int chunk_size"
    using assms(1) by simp_all
  obtain s1 where loop: "convert_loop L chunk_size (read_jsonl_file L file_lines) ?s0 = (s1, None)"
    and inv: "writer_inv ?C cs s1"
    using convert_loop_writes [OF assms(2,3) writer_inv_initial [OF C(1)] C(2)] C(3) by auto
  note fin = final_chunk_writes [OF inv C(1)]
  let ?s2 = "write_final_chunk s1"
  obtain s res where conv: "convert_jsonl_to_csv L file_lines chunk_size start_time end_time = (s, res)"
    and calls: "csv_calls s = csv_calls ?s2" and tot: "total_records s = total_records ?s2"
    using loop
    by (cases "end_time - start_time = 0")
      (simp_all add: convert_jsonl_to_csv_def Let_def csv_calls_log_info total_records_log_info)
  have nonempty: "csv_calls ?s2 = [] \<longleftrightarrow> cs = []"
    using fin(2) fin(3) by (cases "cs = []") auto
  have hdr: "length (filter write_header (csv_calls ?s2)) = (if cs = [] then 0 else 1)"
    using header_count [OF fin(4)] nonempty by simp
  have content: "file_after (csv_calls ?s2) file0 =
      (if cs = [] then file0
       else Some (Header (frame_columns (rows (hd (csv_calls ?s2)))) # map Row cs))"
  proof (cases "cs = []")
    case True
    then show ?thesis
      using nonempty by (simp add: file_after_def)
  next
    case False
    then have "csv_calls ?s2 \<noteq> []"
      using nonempty by simp
    then show ?thesis
      using file_after_calls [OF _ fin(4) fin(5), of file0] fin(2) False by simp
  qed
  show ?thesis
    using conv calls tot fin C(4) hdr content by simp
qed

theorem chunked_writer_groups_witness:
  "(1::int) \<le> 2 \<and>
   \<not> raises (read_jsonl_file sample_lib [''{}'', ''{bad'', ''{}'', ''{}'']) \<and>
   (\<exists>s res.
      convert_jsonl_to_csv sample_lib [''{}'', ''{bad'', ''{}'', ''{}''] 2 0 1 = (s, res) \<and>
      length (csv_calls s) = 2 \<and>
      map (\<lambda>call. length (rows call)) (csv_calls s) = [2, 1] \<and>
      map write_header (csv_calls s) = [True, False] \<and>
      map append_mode (csv_calls s) = [False, True] \<and>
      length (filter write_header (csv_calls s)) = 1 \<and>
      total_records s = 3)"
proof -
  let ?lines = "[''{}'', ''{bad'', ''{}'', ''{}'']"
  let ?c = "cleaned_with sample_lib [] (Fin 0) 0"
  have 1: "(1::int) \<le> 2"
    by simp
  have 2: "\<not> raises (read_jsonl_file sample_lib ?lines)"
    by (simp add: read_sample)
  have 3: "map (clean_decoded sample_lib) (yielded (read_jsonl_file sample_lib ?lines)) =
             map Inr [?c, ?c, ?c]"
    by (simp add: read_sample clean_empty)
  obtain s res where c: "convert_jsonl_to_csv sample_lib ?lines 2 0 1 = (s, res)"
    and sizes: "map (\<lambda>call. length (rows call)) (csv_calls s) =
             replicate (length [?c, ?c, ?c] div nat 2) (nat 2) @
             (if length [?c, ?c, ?c] mod nat 2 = 0 then [] else [length [?c, ?c, ?c] mod nat 2])"
    and hdr: "map write_header (csv_calls s) = map (\<lambda>i. i = 0) [0..<length (csv_calls s)]"
    and app: "map append_mode (csv_calls s) = map (\<lambda>i. 0 < i) [0..<length (csv_calls s)]"
    and cnt: "length (filter write_header (csv_calls s)) = (if [?c, ?c, ?c] = [] then 0 else 1)"
    and tot: "total_records s = length [?c, ?c, ?c]"
    using chunked_writer_groups [OF 1 2 3, of 0 1] by blast
  have "replicate (length [?c, ?c, ?c] div nat 2) (nat 2) @
          (if length [?c, ?c, ?c] mod nat 2 = 0 then [] else [length [?c, ?c, ?c] mod nat 2]) =
        [2, 1::nat]"
  proof -
    have "length [?c, ?c, ?c] = 3" "nat 2 = 2"
      by simp_all
    moreover have "(3::nat) div 2 = 1" "(3::nat) mod 2 = 1" "replicate 1 (2::nat) = [2]"
      by simp_all
    ultimately show ?thesis
      by (simp only:) simp
  qed
  then have sz: "map (\<lambda>call. length (rows call)) (csv_calls s) = [2, 1]"
    using sizes by (simp only:)
  then have len: "length (csv_calls s) = 2"
    by (metis length_map length_Cons list.size(3) numeral_2_eq_2)
  have "[0..<2] = [0, 1]"
    by (simp add: upt_rec)
  then show ?thesis
    using 1 2 c sz len hdr app cnt tot by simp
qed

text \<open>
  C2 as stated asks for the header exactly once for every \<open>N\<close>. On an empty input the
  guard of line 180 skips the only write, so no header is written.
\<close>

theorem header_written_once_counterexample:
  "length (filter write_header (csv_calls (fst (convert_jsonl_to_csv sample_lib [] 1 0 1)))) \<noteq> 1"
  by (simp add: convert_jsonl_to_csv_def read_jsonl_file_def log_info_def write_final_chunk_def)

section \<open>Claims about the converter on an empty input\<close>

text \<open>
  When the reader yields no record and does not raise, the converter calls \<^verbatim>\<open>to_csv\<close>
  never; it returns 0 and the exit code is 0 when the two clock readings differ, and the
  exit code is 1 when they are equal.
\<close>

lemma log_info_twice: "log_info es (log_info es' s) = log_info (es' @ es) s"
  by (simp add: log_info_def)

lemma convert_loop_no_records:
  assumes "yielded evs = []" and "\<not> raises evs"
  shows "convert_loop L C evs s = (log_info (logged_by evs) s, None)"
  using assms
proof (induction evs arbitrary: s)
  case Nil
  then show ?case by (simp add: log_info_def)
next
  case (Cons ev evs)
  then show ?case
    by (cases ev) (simp_all add: log_info_twice)
qed

lemma no_records_no_write:
  assumes "yielded (read_jsonl_file L file_lines) = []"
    and "\<not> raises (read_jsonl_file L file_lines)"
  shows "csv_calls (fst (main_convert L (Some file_lines) C t0 t1)) = []"
    and "t0 \<noteq> t1 \<Longrightarrow> snd (convert_jsonl_to_csv L file_lines C t0 t1) = Inr 0"
    and "t0 \<noteq> t1 \<Longrightarrow> snd (main_convert L (Some file_lines) C t0 t1) = 0"
    and "t0 = t1 \<Longrightarrow> snd (main_convert L (Some file_lines) C t0 t1) = 1"
  using convert_loop_no_records [OF assms]
  by (simp_all add: main_convert_def convert_jsonl_to_csv_def write_final_chunk_def log_info_def
      Let_def)

text \<open>
  C10. The claim is that an input with no valid record ends with the count 0 and the exit
  code 0. Line 201 divides the count by the elapsed time: on an empty file, when the two
  readings of the clock are equal, the division raises \<^verbatim>\<open>ZeroDivisionError\<close>, line 205
  catches and re-raises it, and \<^verbatim>\<open>main\<close> returns 1. Nothing is written in either case.
\<close>

theorem empty_input_zero_elapsed_time_fails:
  "main_convert L (Some []) chunk_size t t =
     (\<lparr>chunk_data = [], chunk_count = 0, total_records = 0, csv_calls = [],
       logged = [StartingConversion, ChunkSize chunk_size, ReadingFile, ConversionCompleted,
                 TotalRecordsConverted 0, TotalTime, ErrorDuringConversion ZeroDivisionError,
                 ConversionFailed ZeroDivisionError]\<rparr>, 1)"
  by (simp add: main_convert_def convert_jsonl_to_csv_def read_jsonl_file_def
      write_final_chunk_def log_info_def)

section \<open>Claims about the load orchestrator\<close>

lemma df_len_update:
  assumes "map_of df col = Some cs" and "length cs' = length cs"
  shows "df_len (AList.update col cs' df) = df_len df"
  using assms by (cases df) (auto simp: df_len_def)

lemma astype_int_length:
  "astype_int L cs = Inr ns \<Longrightarrow> length ns = length cs"
  by (induction cs arbitrary: ns) (auto split: sum.splits)

lemma df_len_fill_string_column: "df_len (fill_string_column L col df) = df_len df"
  by (simp add: fill_string_column_def df_len_update split: option.splits)

lemma df_len_coerce_numeric_column: "df_len (coerce_numeric_column L col df) = df_len df"
  by (simp add: coerce_numeric_column_def df_len_update split: option.splits)

lemma df_len_cast_verified_purchase:
  "cast_verified_purchase L df = Inr df' \<Longrightarrow> df_len df' = df_len df"
  by (auto simp: cast_verified_purchase_def df_len_update astype_int_length
      split: option.splits sum.splits)

lemma df_len_fold:
  assumes "\<And>col df. df_len (f col df) = df_len df"
  shows "df_len (fold f cols df) = df_len df"
  using assms by (induction cols arbitrary: df) simp_all

lemma df_len_preprocess:
  assumes "preprocess_dataframe L chunk = Inr df"
  shows "df_len df = df_len chunk"
proof -
  let ?d1 = "fold (fill_string_column L) string_columns chunk"
  obtain d2 where c: "cast_verified_purchase L ?d1 = Inr d2"
    and df: "df = fold (coerce_numeric_column L) numeric_columns d2"
    using assms by (auto simp: preprocess_dataframe_def Let_def split: sum.splits)
  have "df_len df = df_len d2"
    unfolding df by (rule df_len_fold) (rule df_len_coerce_numeric_column)
  also have "\<dots> = df_len ?d1"
    using c by (rule df_len_cast_verified_purchase)
  also have "\<dots> = df_len chunk"
    by (rule df_len_fold) (rule df_len_fill_string_column)
  finally show ?thesis .
qed

lemma ingest_loop_insert_fails:
  assumes "list_all2 (\<lambda>chunk df. preprocess_dataframe L chunk = Inr df) earlier dfs"
    and "\<forall>(k, df)\<in>set (enumerate (Suc (batch_count s)) dfs). W k df = None"
    and "preprocess_dataframe L chunk = Inr df"
    and "W (batch_count s + Suc (length dfs)) df = Some (e, inserted)"
  shows "\<exists>s' es. ingest_loop L W (earlier @ chunk # later) s = (s', Some e) \<and>
           submitted s' = submitted s @ dfs @ [df] \<and>
           sink s' = sink s @ dfs @ [df_take inserted df] \<and>
           batch_count s' = batch_count s + Suc (length dfs) \<and>
           total_rows_processed s' = total_rows_processed s + sum_list (map df_len dfs) \<and>
           ingest_log s' = ingest_log s @ es @
             [ErrorProcessingBatch (batch_count s + Suc (length dfs)) e,
              FailedBatchSize (df_len df)]"
  using assms
proof (induction earlier dfs arbitrary: s rule: list_all2_induct)
  case Nil
  then show ?case by simp
next
  case (Cons c0 earlier d0 dfs)
  let ?s1 = "s\<lparr>batch_count := batch_count s + 1,
               submitted := submitted s @ [d0],
               sink := sink s @ [d0],
               total_rows_processed := total_rows_processed s + df_len d0,
               ingest_log := ingest_log s @
                 [BatchProcessed (batch_count s + 1) (df_len d0),
                  TotalProgress (total_rows_processed s + df_len d0)]\<rparr>"
  have w0: "W (batch_count s + 1) d0 = None"
    using Cons.prems(1) by simp
  have step: "ingest_loop L W ((c0 # earlier) @ chunk # later) s =
      ingest_loop L W (earlier @ chunk # later) ?s1"
    using Cons.hyps(1) w0 by (simp add: Let_def)
  have a: "\<forall>(k, df)\<in>set (enumerate (Suc (batch_count ?s1)) dfs). W k df = None"
    using Cons.prems(1) by simp
  have b: "W (batch_count ?s1 + Suc (length dfs)) df = Some (e, inserted)"
    using Cons.prems(3) by simp
  from Cons.IH [OF a Cons.prems(2) b]
  obtain s' es where r: "ingest_loop L W (earlier @ chunk # later) ?s1 = (s', Some e)"
    "submitted s' = submitted ?s1 @ dfs @ [df]"
    "sink s' = sink ?s1 @ dfs @ [df_take inserted df]"
    "batch_count s' = batch_count ?s1 + Suc (length dfs)"
    "total_rows_processed s' = total_rows_processed ?s1 + sum_list (map df_len dfs)"
    "ingest_log s' = ingest_log ?s1 @ es @
       [ErrorProcessingBatch (batch_count ?s1 + Suc (length dfs)) e, FailedBatchSize (df_len df)]"
    by blast
  show ?case
    apply (rule exI [of _ s'])
    apply (rule exI [of _ "[BatchProcessed (batch_count s + 1) (df_len d0),
                  TotalProgress (total_rows_processed s + df_len d0)] @ es"])
    using r step by simp
qed

text \<open>
  C7. Let the batches before batch \<open>k\<close> be re-cast and inserted without an exception,
  and let the insertion of batch \<open>k\<close> raise \<open>e\<close> after \<open>inserted\<close> of its rows went in.
  Then the run ends with \<open>e\<close>; the frames handed to the sink are those of the batches 1
  to \<open>k\<close>, each once, and none of a later batch; the sink holds what it held before,
  then the earlier batches in full, then the rows of batch \<open>k\<close> that went in; and the last
  four log entries are the number of the batch with the exception, the size of the
  batch, the critical error and the rows processed before the failure.
\<close>

theorem insert_failure_aborts_run:
  assumes "list_all2 (\<lambda>chunk df. preprocess_dataframe L chunk = Inr df) earlier dfs"
    and "\<forall>(k, df)\<in>set (enumerate 1 dfs). W k df = None"
    and "preprocess_dataframe L chunk = Inr df"
    and "W (Suc (length dfs)) df = Some (e, inserted)"
  shows "\<exists>s es.
           ingest_data_to_clickhouse L W sink0 (earlier @ chunk # later) batch_size
             start_time end_time = (s, Inl e) \<and>
           submitted s = dfs @ [df] \<and>
           sink s = sink0 @ dfs @ [df_take inserted df] \<and>
           batch_count s = Suc (length dfs) \<and>
           ingest_log s = es @
             [ErrorProcessingBatch (Suc (length dfs)) e, FailedBatchSize (df_len chunk),
              CriticalError e, RowsBeforeFailure (sum_list (map df_len dfs))]"
proof -
  let ?s0 = "\<lparr>total_rows_processed = 0, batch_count = 0, submitted = [], sink = sink0,
              ingest_log = [StartingIngestion, BatchSize batch_size]\<rparr>"
  have a: "\<forall>(k, df)\<in>set (enumerate (Suc (batch_count ?s0)) dfs). W k df = None"
    using assms(2) by simp
  have b: "W (batch_count ?s0 + Suc (length dfs)) df = Some (e, inserted)"
    using assms(4) by simp
  from ingest_loop_insert_fails [OF assms(1) a assms(3) b, of later]
  obtain s' es where r: "ingest_loop L W (earlier @ chunk # later) ?s0 = (s', Some e)"
    "submitted s' = dfs @ [df]"
    "sink s' = sink0 @ dfs @ [df_take inserted df]"
    "batch_count s' = Suc (length dfs)"
    "total_rows_processed s' = sum_list (map df_len dfs)"
    "ingest_log s' = [StartingIngestion, BatchSize batch_size] @ es @
       [ErrorProcessingBatch (Suc (length dfs)) e, FailedBatchSize (df_len df)]"
    by auto
  show ?thesis
    apply (rule exI [of _ "s'\<lparr>ingest_log := ingest_log s' @
             [CriticalError e, RowsBeforeFailure (total_rows_processed s')]\<rparr>"])
    apply (rule exI [of _ "[StartingIngestion, BatchSize batch_size] @ es"])
    using r df_len_preprocess [OF assms(3)]
    by (simp add: ingest_data_to_clickhouse_def)
qed

theorem insert_failure_aborts_run_witness:
  "preprocess_dataframe sample_lib [(''asin'', [CStr ''A'', CStr ''B''])] =
     Inr [(''asin'', [CStr ''A'', CStr ''B''])] \<and>
   sample_sink 1 [(''asin'', [CStr ''A'', CStr ''B''])] = None \<and>
   preprocess_dataframe sample_lib [(''asin'', [CStr ''C'', CFloat NaN])] =
     Inr [(''asin'', [CStr ''C'', CStr []])] \<and>
   sample_sink 2 [(''asin'', [CStr ''C'', CStr []])] = Some (OtherException, 1) \<and>
   (\<exists>s es.
      ingest_data_to_clickhouse sample_lib sample_sink []
        [[(''asin'', [CStr ''A'', CStr ''B''])], [(''asin'', [CStr ''C'', CFloat NaN])],
         [(''asin'', [CStr ''D''])]] 50000 0 1 = (s, Inl OtherException) \<and>
      submitted s = [[(''asin'', [CStr ''A'', CStr ''B''])], [(''asin'', [CStr ''C'', CStr []])]] \<and>
      sink s = [[(''asin'', [CStr ''A'', CStr ''B''])], [(''asin'', [CStr ''C''])]] \<and>
      batch_count s = 2 \<and>
      ingest_log s = es @
        [ErrorProcessingBatch 2 OtherException, FailedBatchSize 2,
         CriticalError OtherException, RowsBeforeFailure 2])"
proof -
  let ?c1 = "[(''asin'', [CStr ''A'', CStr ''B''])]"
  let ?c2 = "[(''asin'', [CStr ''C'', CFloat NaN])]"
  let ?d2 = "[(''asin'', [CStr ''C'', CStr []])]"
  let ?c3 = "[(''asin'', [CStr ''D''])]"
  have p1: "preprocess_dataframe sample_lib ?c1 = Inr ?c1"
    by (simp add: preprocess_dataframe_def string_columns_def numeric_columns_def
        fill_string_column_def cast_verified_purchase_def coerce_numeric_column_def
        fillna_empty_def isna_def)
  have p2: "preprocess_dataframe sample_lib ?c2 = Inr ?d2"
    by (simp add: preprocess_dataframe_def string_columns_def numeric_columns_def
        fill_string_column_def cast_verified_purchase_def coerce_numeric_column_def
        fillna_empty_def isna_def)
  have 1: "list_all2 (\<lambda>chunk df. preprocess_dataframe sample_lib chunk = Inr df) [?c1] [?c1]"
    using p1 by simp
  have w1: "sample_sink 1 ?c1 = None"
    by (simp add: sample_sink_def)
  have 2: "\<forall>(k, df)\<in>set (enumerate 1 [?c1]). sample_sink k df = None"
    using w1 by simp
  have 4: "sample_sink (Suc (length [?c1])) ?d2 = Some (OtherException, 1)"
    by (simp add: sample_sink_def)
  have w2: "sample_sink 2 ?d2 = Some (OtherException, 1)"
    by (simp add: sample_sink_def)
  have l: "df_len ?c2 = 2" "df_len ?c1 = 2" "df_take (Suc 0) ?d2 = [(''asin'', [CStr ''C''])]"
    by (simp_all add: df_len_def df_take_def)
  from insert_failure_aborts_run [OF 1 2 p2 4, of "[]" "[?c3]" 50000 0 1]
  have "\<exists>s es.
      ingest_data_to_clickhouse sample_lib sample_sink [] [?c1, ?c2, ?c3] 50000 0 1 =
        (s, Inl OtherException) \<and>
      submitted s = [?c1, ?d2] \<and>
      sink s = [?c1, [(''asin'', [CStr ''C''])]] \<and>
      batch_count s = 2 \<and>
      ingest_log s = es @
        [ErrorProcessingBatch 2 OtherException, FailedBatchSize 2,
         CriticalError OtherException, RowsBeforeFailure 2]"
    by (simp add: l numeral_2_eq_2)
  then show ?thesis
    using p1 p2 w1 w2 by simp
qed

section \<open>Claims about the re-cast step\<close>

text \<open>
  The re-cast step returns exactly when the \<^verbatim>\<open>verified_purchase\<close> column is absent or
  all its cells convert to an int; the string and the numeric columns never make it fail.
\<close>

lemma map_of_fill_string_column:
  assumes "k \<noteq> col"
  shows "map_of (fill_string_column L col df) k = map_of df k"
  using assms by (simp add: fill_string_column_def update_conv' split: option.splits)

lemma verified_purchase_untouched:
  "map_of (fold (fill_string_column L) string_columns df) ''verified_purchase'' =
     map_of df ''verified_purchase''"
  by (simp add: string_columns_def map_of_fill_string_column)

lemma preprocess_returns_iff:
  "(\<exists>df'. preprocess_dataframe L df = Inr df') \<longleftrightarrow>
     (case map_of df ''verified_purchase'' of
        None \<Rightarrow> True
      | Some cs \<Rightarrow> (\<exists>ns. astype_int L cs = Inr ns))"
  by (auto simp: preprocess_dataframe_def cast_verified_purchase_def Let_def
      verified_purchase_untouched split: option.splits sum.splits)


text \<open>
  C8. The claim is that the re-cast step fails on no batch. The string columns go
  through \<^verbatim>\<open>fillna('')\<close> and the numeric ones through \<^verbatim>\<open>errors='coerce'\<close> and
  \<^verbatim>\<open>fillna(0)\<close>, but line 135 casts \<^verbatim>\<open>verified_purchase\<close> with a bare
  \<^verbatim>\<open>astype(int)\<close>: on a batch with a missing value in that column the cast raises.
\<close>

theorem preprocess_fails_on_missing_verified_purchase:
  "preprocess_dataframe L
     [(''asin'', [CStr ''B001'', CStr ''B002'']),
      (''verified_purchase'', [CBool True, CFloat NaN])] = Inl ValueError"
  by (simp add: preprocess_dataframe_def string_columns_def
      fill_string_column_def cast_verified_purchase_def fillna_empty_def isna_def)


end
